theory Spec2Isabelle
  imports Complex_Main
begin

section \<open>Python strings\<close>

text \<open>
  Strings are lists of characters. The model covers ASCII text: the whitespace
  characters are the ASCII ones that \<^verbatim>\<open>str.isspace\<close> accepts, and
  \<^verbatim>\<open>str.upper\<close> maps \<open>a\<close>..\<open>z\<close> to \<open>A\<close>..\<open>Z\<close> and leaves every other
  character as it is.
\<close>

definition is_space :: "char \<Rightarrow> bool" where
  "is_space c = (let n = (of_char c :: nat) in (9 \<le> n \<and> n \<le> 13) \<or> (28 \<le> n \<and> n \<le> 32))"

definition lstrip :: "string \<Rightarrow> string" where
  "lstrip s = dropWhile is_space s"

definition rstrip :: "string \<Rightarrow> string" where
  "rstrip s = rev (dropWhile is_space (rev s))"

definition strip :: "string \<Rightarrow> string" where
  "strip s = rstrip (lstrip s)"

definition upper_char :: "char \<Rightarrow> char" where
  "upper_char c =
     (case map_of (zip ''abcdefghijklmnopqrstuvwxyz'' ''ABCDEFGHIJKLMNOPQRSTUVWXYZ'') c of
        Some u \<Rightarrow> u
      | None \<Rightarrow> c)"

definition upper :: "string \<Rightarrow> string" where
  "upper s = map upper_char s"

text \<open>\<^verbatim>\<open>needle in haystack\<close> on strings: the needle occurs as a contiguous block.\<close>

fun py_in :: "string \<Rightarrow> string \<Rightarrow> bool" where
  "py_in needle [] = (needle = [])"
| "py_in needle (c # cs) = (take (length needle) (c # cs) = needle \<or> py_in needle cs)"

text \<open>
  \<^verbatim>\<open>s.replace(old, new)\<close> for a non-empty \<open>old\<close>: the occurrences are replaced from
  left to right, without overlap. The fuel argument bounds the length of the text still
  to scan, so that the recursion is structural; \<open>replace\<close> starts it at the length of
  the whole text.
\<close>

fun replace_fuel :: "nat \<Rightarrow> string \<Rightarrow> string \<Rightarrow> string \<Rightarrow> string" where
  "replace_fuel 0 old new s = s"
| "replace_fuel (Suc k) old new s =
     (case s of
        [] \<Rightarrow> []
      | c # cs \<Rightarrow>
          if take (length old) s = old
          then new @ replace_fuel k old new (drop (length old) s)
          else c # replace_fuel k old new cs)"

definition replace :: "string \<Rightarrow> string \<Rightarrow> string \<Rightarrow> string" where
  "replace s old new = replace_fuel (length s) old new s"

section \<open>Python floats\<close>

text \<open>
  A Python float is an IEEE 754 binary64 value: a finite value (kept as the rational
  number it denotes), an infinity or NaN. The two zeros are not told apart: they compare
  equal in Python, and no operation modelled here separates them.
\<close>

datatype pyfloat = Fin rat | PInf | NInf | NaN

datatype py_error =
    TypeError
  | ValueError
  | OverflowError
  | ZeroDivisionError
  | KeyError string
  | HTTPException nat

fun bit_length :: "nat \<Rightarrow> nat" where
  "bit_length n = (if n = 0 then 0 else Suc (bit_length (n div 2)))"

declare bit_length.simps [simp del]

definition pow2 :: "int \<Rightarrow> rat" where
  "pow2 k = (if 0 \<le> k then 2 ^ nat k else 1 / 2 ^ nat (- k))"

text \<open>For \<open>0 < x\<close>, the exponent \<open>e\<close> with \<open>2\<^sup>e \<le> x < 2\<^sup>e\<^sup>+\<^sup>1\<close>.\<close>

definition floor_log2 :: "rat \<Rightarrow> int" where
  "floor_log2 x =
     (if 1 \<le> x then int (bit_length (nat \<lfloor>x\<rfloor>)) - 1
      else - int (bit_length (nat (\<lceil>1 / x\<rceil> - 1))))"

definition round_half_even :: "rat \<Rightarrow> int" where
  "round_half_even x =
     (let f = \<lfloor>x\<rfloor>; d = x - of_int f
      in if d < 1 / 2 then f
         else if 1 / 2 < d then f + 1
         else if even f then f else f + 1)"

text \<open>
  Rounding a rational to binary64, to nearest with ties to even: 53 significant bits,
  a smallest exponent of \<open>-1022\<close> (below it the spacing stays \<open>2\<^sup>-\<^sup>1\<^sup>0\<^sup>7\<^sup>4\<close>), and an
  infinity once the rounded value reaches \<open>2\<^sup>1\<^sup>0\<^sup>2\<^sup>4\<close>.
\<close>

definition round_double :: "rat \<Rightarrow> pyfloat" where
  "round_double x =
     (if x = 0 then Fin 0
      else
        let e = max (floor_log2 \<bar>x\<bar>) (- 1022);
            q = pow2 (e - 52);
            r = of_int (round_half_even (x / q)) * q
        in if pow2 1024 \<le> \<bar>r\<bar> then (if 0 < x then PInf else NInf) else Fin r)"

fun fneg :: "pyfloat \<Rightarrow> pyfloat" where
  "fneg (Fin x) = Fin (- x)"
| "fneg PInf = NInf"
| "fneg NInf = PInf"
| "fneg NaN = NaN"

fun fadd :: "pyfloat \<Rightarrow> pyfloat \<Rightarrow> pyfloat" where
  "fadd NaN b = NaN"
| "fadd a NaN = NaN"
| "fadd (Fin x) (Fin y) = round_double (x + y)"
| "fadd PInf NInf = NaN"
| "fadd NInf PInf = NaN"
| "fadd PInf b = PInf"
| "fadd NInf b = NInf"
| "fadd (Fin x) b = b"

definition fsub :: "pyfloat \<Rightarrow> pyfloat \<Rightarrow> pyfloat" where
  "fsub a b = fadd a (fneg b)"

fun fabs :: "pyfloat \<Rightarrow> pyfloat" where
  "fabs (Fin x) = Fin \<bar>x\<bar>"
| "fabs PInf = PInf"
| "fabs NInf = PInf"
| "fabs NaN = NaN"

text \<open>\<^verbatim>\<open>a < b\<close>: false as soon as one side is NaN.\<close>

fun flt :: "pyfloat \<Rightarrow> pyfloat \<Rightarrow> bool" where
  "flt NaN b = False"
| "flt a NaN = False"
| "flt (Fin x) (Fin y) = (x < y)"
| "flt PInf b = False"
| "flt NInf NInf = False"
| "flt NInf b = True"
| "flt (Fin x) PInf = True"
| "flt (Fin x) NInf = False"

definition fgt :: "pyfloat \<Rightarrow> pyfloat \<Rightarrow> bool" where
  "fgt a b = flt b a"

text \<open>\<^verbatim>\<open>a >= b\<close> and \<^verbatim>\<open>a == b\<close>: false as soon as one side is NaN.\<close>

definition fge :: "pyfloat \<Rightarrow> pyfloat \<Rightarrow> bool" where
  "fge a b = (a \<noteq> NaN \<and> b \<noteq> NaN \<and> \<not> flt a b)"

definition feq :: "pyfloat \<Rightarrow> pyfloat \<Rightarrow> bool" where
  "feq a b = (a \<noteq> NaN \<and> b \<noteq> NaN \<and> a = b)"

section \<open>Converting text to a float\<close>

definition is_digit :: "char \<Rightarrow> bool" where
  "is_digit c = (c \<in> set ''0123456789'')"

definition digit_val :: "char \<Rightarrow> nat" where
  "digit_val c =
     (case map_of (zip ''0123456789'' [0, 1, 2, 3, 4, 5, 6, 7, 8, 9]) c of
        Some d \<Rightarrow> d
      | None \<Rightarrow> 0)"

definition nat_of_digits :: "string \<Rightarrow> nat" where
  "nat_of_digits ds = foldl (\<lambda>a c. 10 * a + digit_val c) 0 ds"

definition pow10 :: "int \<Rightarrow> rat" where
  "pow10 k = (if 0 \<le> k then 10 ^ nat k else 1 / 10 ^ nat (- k))"

text \<open>
  An underscore is accepted between two digits only; the first argument is the
  character read before.
\<close>

fun remove_underscores :: "char \<Rightarrow> string \<Rightarrow> string option" where
  "remove_underscores prev [] = (if prev = CHR ''_'' then None else Some [])"
| "remove_underscores prev (c # cs) =
     (if c = CHR ''_'' then
        (if is_digit prev then remove_underscores c cs else None)
      else if prev = CHR ''_'' \<and> \<not> is_digit c then None
      else map_option ((#) c) (remove_underscores c cs))"

definition parse_sign :: "string \<Rightarrow> bool \<times> string" where
  "parse_sign s =
     (case s of
        [] \<Rightarrow> (False, [])
      | c # cs \<Rightarrow>
          if c = CHR ''-'' then (True, cs)
          else if c = CHR ''+'' then (False, cs)
          else (False, s))"

definition parse_exponent :: "string \<Rightarrow> int option" where
  "parse_exponent r =
     (case r of
        [] \<Rightarrow> Some 0
      | c # cs \<Rightarrow>
          if c = CHR ''e'' \<or> c = CHR ''E'' then
            (let (neg, ds) = parse_sign cs
             in if ds \<noteq> [] \<and> list_all is_digit ds
                then Some (if neg then - int (nat_of_digits ds) else int (nat_of_digits ds))
                else None)
          else None)"

text \<open>
  The decimal grammar of \<^verbatim>\<open>float\<close>: digits, an optional point and more digits (one
  digit at least on either side), an optional exponent, and nothing after it.
\<close>

definition parse_decimal :: "string \<Rightarrow> rat option" where
  "parse_decimal t =
     (let ip = takeWhile is_digit t;
          r1 = dropWhile is_digit t;
          (fp, r2) =
            (case r1 of
               [] \<Rightarrow> ([], [])
             | c # cs \<Rightarrow>
                 if c = CHR ''.'' then (takeWhile is_digit cs, dropWhile is_digit cs)
                 else ([], r1))
      in if ip @ fp = [] then None
         else
           (case parse_exponent r2 of
              None \<Rightarrow> None
            | Some e \<Rightarrow>
                Some (of_nat (nat_of_digits (ip @ fp)) * pow10 (e - int (length fp)))))"

text \<open>
  \<^verbatim>\<open>float(s)\<close> for a string: surrounding whitespace is dropped, then a sign, then
  \<^verbatim>\<open>inf\<close>, \<^verbatim>\<open>infinity\<close> or \<^verbatim>\<open>nan\<close> in any case, or a decimal numeral, which is
  rounded to the nearest float. Anything else raises \<^verbatim>\<open>ValueError\<close>.
\<close>

definition float_of_str :: "string \<Rightarrow> py_error + pyfloat" where
  "float_of_str s =
     (case remove_underscores (CHR 0x00) (strip s) of
        None \<Rightarrow> Inl ValueError
      | Some t \<Rightarrow>
          (let (neg, body) = parse_sign t
           in if upper body = ''INF'' \<or> upper body = ''INFINITY''
              then Inr (if neg then NInf else PInf)
              else if upper body = ''NAN'' then Inr NaN
              else
                (case parse_decimal body of
                   None \<Rightarrow> Inl ValueError
                 | Some v \<Rightarrow> Inr (round_double (if neg then - v else v)))))"

section \<open>Amount parser\<close>

text \<open>
  \<^verbatim>\<open>BankReconciliation.parse_amount\<close>. The argument is a string or \<^verbatim>\<open>None\<close>. The
  \<^verbatim>\<open>try\<close> around the conversion turns every failure into \<open>0.0\<close>.
\<close>

definition parse_amount :: "string option \<Rightarrow> py_error + pyfloat" where
  "parse_amount amount_str =
     (case amount_str of
        None \<Rightarrow> Inr (Fin 0)
      | Some s \<Rightarrow>
          if s = [] then Inr (Fin 0)
          else
            (case float_of_str
                    (strip (replace (replace (replace s '','' '''') ''Nu.'' '''') ''BTN'' ''''))
             of
               Inr v \<Rightarrow> Inr v
             | Inl e \<Rightarrow> Inr (Fin 0)))"

section \<open>Statement extractor\<close>

text \<open>
  A table cell of the PDF is a string or \<^verbatim>\<open>None\<close>; a row is a list of cells, a table a
  list of rows, a page a list of tables. A document that cannot be opened or read is
  \<open>None\<close>, a readable one \<open>Some pages\<close>.
\<close>

type_synonym pdf_cell = "string option"
type_synonym pdf_row = "pdf_cell list"
type_synonym pdf_table = "pdf_row list"
type_synonym pdf_page = "pdf_table list"
type_synonym pdf_document = "pdf_page list option"

record txn =
  date :: string
  journal_number :: string
  description :: string
  amount :: pyfloat

text \<open>
  A data frame built from a list of records has the keys of the records as its columns;
  built from the empty list it has no column at all. Its index is \<open>0, 1, 2, \<dots>\<close>.
\<close>

record bank_frame =
  columns :: "string list"
  records :: "txn list"

definition DataFrame :: "txn list \<Rightarrow> bank_frame" where
  "DataFrame transactions =
     \<lparr>columns = (if transactions = [] then []
                 else [''date'', ''journal_number'', ''description'', ''amount'']),
      records = transactions\<rparr>"

text \<open>\<^verbatim>\<open>df['journal_number']\<close>: a \<^verbatim>\<open>KeyError\<close> when the frame has no such column.\<close>

definition journal_number_column :: "bank_frame \<Rightarrow> py_error + string list" where
  "journal_number_column df =
     (if ''journal_number'' \<in> set (columns df)
      then Inr (map journal_number (records df))
      else Inl (KeyError ''journal_number''))"

definition truthy :: "pdf_cell \<Rightarrow> bool" where
  "truthy cell = (case cell of None \<Rightarrow> False | Some s \<Rightarrow> s \<noteq> [])"

definition py_str :: "pdf_cell \<Rightarrow> string" where
  "py_str cell = (case cell of None \<Rightarrow> ''None'' | Some s \<Rightarrow> s)"

text \<open>
  \<^verbatim>\<open>repr\<close> of a string: single quotes, unless the string has a single quote and no
  double quote; the quote character and the backslash are escaped, tab, newline and
  carriage return are written \<^verbatim>\<open>\t\<close>, \<^verbatim>\<open>\n\<close>, \<^verbatim>\<open>\r\<close>, and the other characters outside the
  printable ASCII range are written \<^verbatim>\<open>\xhh\<close>.
\<close>

definition hex_digit :: "nat \<Rightarrow> char" where
  "hex_digit n = ''0123456789abcdef'' ! n"

definition repr_char :: "char \<Rightarrow> char \<Rightarrow> string" where
  "repr_char quote c =
     (let n = (of_char c :: nat)
      in if c = quote \<or> c = CHR 0x5C then [CHR 0x5C, c]
         else if c = CHR 0x09 then [CHR 0x5C, CHR ''t'']
         else if c = CHR 0x0A then [CHR 0x5C, CHR ''n'']
         else if c = CHR 0x0D then [CHR 0x5C, CHR ''r'']
         else if n < 32 \<or> 127 \<le> n
           then [CHR 0x5C, CHR ''x'', hex_digit (n div 16), hex_digit (n mod 16)]
         else [c])"

definition repr_str :: "string \<Rightarrow> string" where
  "repr_str s =
     (let quote = (if CHR 0x27 \<in> set s \<and> CHR 0x22 \<notin> set s then CHR 0x22 else CHR 0x27)
      in [quote] @ concat (map (repr_char quote) s) @ [quote])"

definition repr_cell :: "pdf_cell \<Rightarrow> string" where
  "repr_cell cell = (case cell of None \<Rightarrow> ''None'' | Some s \<Rightarrow> repr_str s)"

fun join :: "string \<Rightarrow> string list \<Rightarrow> string" where
  "join sep [] = []"
| "join sep [x] = x"
| "join sep (x # y # ys) = x @ sep @ join sep (y # ys)"

text \<open>\<^verbatim>\<open>str(row)\<close> for a row, which is a Python list.\<close>

definition str_row :: "pdf_row \<Rightarrow> string" where
  "str_row row = ''['' @ join '', '' (map repr_cell row) @ '']''"

definition exclusion_keywords :: "string list" where
  "exclusion_keywords = [''TOTAL'', ''OPENING'', ''CLOSING'', ''STATEMENT'', ''BALANCE AS'']"

text \<open>
  \<^verbatim>\<open>str(row[i]).strip() if len(row) > i and row[i] else default\<close>. For column 0 the
  source omits the length test; the row has five cells at least when it gets there.
\<close>

definition cell_text :: "pdf_row \<Rightarrow> nat \<Rightarrow> string \<Rightarrow> string" where
  "cell_text row i dflt =
     (if i < length row \<and> truthy (row ! i) then strip (py_str (row ! i)) else dflt)"

text \<open>
  The body of the loop over the rows after the header: \<open>None\<close> when the row is skipped,
  \<open>Some\<close> of the transaction appended otherwise. The \<^verbatim>\<open>except\<close> clause skips the row too.
\<close>

definition parse_row :: "pdf_row \<Rightarrow> txn option" where
  "parse_row row =
     (if row = [] \<or> length row < 5 then None
      else if list_ex (\<lambda>kw. py_in kw (upper (str_row row))) exclusion_keywords then None
      else
        let post_date = cell_text row 0 '''';
            particulars = cell_text row 2 '''';
            journal_number = cell_text row 3 '''';
            amount_str = cell_text row 6 ''0''
        in if journal_number = [] \<or> journal_number = ''None'' \<or> length journal_number < 3
           then None
           else
             (case parse_amount (Some amount_str) of
                Inl e \<Rightarrow> None
              | Inr parsed \<Rightarrow>
                  if fgt parsed (Fin 0)
                  then Some \<lparr>date = post_date, journal_number = journal_number,
                             description = particulars, amount = parsed\<rparr>
                  else None))"

definition is_header_row :: "pdf_row \<Rightarrow> bool" where
  "is_header_row row = list_ex (\<lambda>cell. py_in ''JOURNAL'' (upper (py_str cell))) (filter truthy row)"

text \<open>The index of the first header row, counted from \<open>idx\<close>; \<open>None\<close> stands for \<open>-1\<close>.\<close>

fun find_header :: "nat \<Rightarrow> pdf_table \<Rightarrow> nat option" where
  "find_header idx [] = None"
| "find_header idx (row # rows) =
     (if is_header_row row then Some idx else find_header (Suc idx) rows)"

definition parse_table :: "pdf_table \<Rightarrow> txn list" where
  "parse_table table =
     (if table = [] \<or> length table < 2 then []
      else
        (case find_header 0 table of
           None \<Rightarrow> []
         | Some header_idx \<Rightarrow> List.map_filter parse_row (drop (header_idx + 1) table)))"

text \<open>
  \<^verbatim>\<open>BankReconciliation.parse_bank_pdf\<close>: a failure at the level of the document is
  re-raised as an \<^verbatim>\<open>HTTPException\<close> with status 500.
\<close>

definition parse_bank_pdf :: "pdf_document \<Rightarrow> py_error + bank_frame" where
  "parse_bank_pdf pdf =
     (case pdf of
        None \<Rightarrow> Inl (HTTPException 500)
      | Some pages \<Rightarrow>
          Inr (DataFrame (concat (map (\<lambda>page. concat (map parse_table page)) pages))))"

section \<open>Ledger entries and the entry filter\<close>

text \<open>
  A value in a cell of the ledger sheet: \<^verbatim>\<open>None\<close>, a string, a float (\<open>NaN\<close> for a blank
  numeric cell) or an integer.
\<close>

datatype cell = CNone | CText string | CFloat pyfloat | CInt int

text \<open>
  \<^verbatim>\<open>float(x)\<close> for a cell value: a string is parsed, an integer is rounded (and is an
  \<^verbatim>\<open>OverflowError\<close> when too large), \<^verbatim>\<open>None\<close> is a \<^verbatim>\<open>TypeError\<close>.
\<close>

definition float_of_cell :: "cell \<Rightarrow> py_error + pyfloat" where
  "float_of_cell x =
     (case x of
        CNone \<Rightarrow> Inl TypeError
      | CText s \<Rightarrow> float_of_str s
      | CFloat f \<Rightarrow> Inr f
      | CInt n \<Rightarrow>
          (case round_double (of_int n) of
             Fin r \<Rightarrow> Inr (Fin r)
           | _ \<Rightarrow> Inl OverflowError))"

text \<open>
  A row of the ledger sheet. The reference key \<^verbatim>\<open>ChequeDDNo\<close> is \<open>None\<close> for a null cell
  (what \<^verbatim>\<open>notna\<close> rejects) and \<open>Some s\<close> for a present one, \<open>s\<close> being the text that
  \<^verbatim>\<open>astype(str)\<close> gives for it. The columns other than the key and the amount are passed
  through as they are.
\<close>

record ledger_row =
  ChequeDDNo :: "string option"
  Amount :: cell
  Other :: "(string \<times> cell) list"

text \<open>A row of \<^verbatim>\<open>self.data_entry_df\<close>: the ledger row and its \<^verbatim>\<open>_ChequeDDNo_str\<close>.\<close>

record entry = ledger_row +
  ChequeDDNo_str :: string

definition notna :: "string option \<Rightarrow> bool" where
  "notna x = (x \<noteq> None)"

definition astype_str :: "string option \<Rightarrow> string" where
  "astype_str x = (case x of None \<Rightarrow> ''nan'' | Some s \<Rightarrow> s)"

definition with_ChequeDDNo_str :: "ledger_row \<Rightarrow> entry" where
  "with_ChequeDDNo_str r =
     \<lparr>ChequeDDNo = ChequeDDNo r, Amount = Amount r, Other = Other r,
      ChequeDDNo_str = strip (astype_str (ChequeDDNo r))\<rparr>"

record reconciliation =
  original_df :: "ledger_row list"
  data_entry_df :: "entry list"
  bank_df :: bank_frame

text \<open>
  \<^verbatim>\<open>BankReconciliation.__init__\<close>: the rows with a key are kept, the statement is
  extracted, and its \<^verbatim>\<open>journal_number\<close> column is read and written back stripped.
\<close>

definition BankReconciliation_init ::
  "ledger_row list \<Rightarrow> pdf_document \<Rightarrow> py_error + reconciliation" where
  "BankReconciliation_init data_entry bank_statement =
     (let kept = map with_ChequeDDNo_str (filter (\<lambda>r. notna (ChequeDDNo r)) data_entry)
      in case parse_bank_pdf bank_statement of
           Inl e \<Rightarrow> Inl e
         | Inr df \<Rightarrow>
             (case journal_number_column df of
                Inl e \<Rightarrow> Inl e
              | Inr col \<Rightarrow>
                  Inr \<lparr>original_df = data_entry,
                       data_entry_df = kept,
                       bank_df = df\<lparr>records :=
                         map (\<lambda>(t, j). t\<lparr>journal_number := strip j\<rparr>) (zip (records df) col)\<rparr>\<rparr>))"

section \<open>Matcher\<close>

text \<open>
  The remark of a report row: the one the ledger row came with, or the text generated for
  an adjustment from the journal, the bank amount, the entry amount and the difference.
\<close>

datatype remark = Original | Adjustment_for string pyfloat pyfloat pyfloat

text \<open>A report row: \<^verbatim>\<open>row.to_dict()\<close> and the keys that \<^verbatim>\<open>reconcile\<close> adds.\<close>

record row_dict = entry +
  Status :: string
  Bank_Amount :: cell
  Difference :: cell
  Remarks :: remark

definition to_dict :: "entry \<Rightarrow> string \<Rightarrow> cell \<Rightarrow> cell \<Rightarrow> row_dict" where
  "to_dict row status bank_amount difference =
     \<lparr>ChequeDDNo = ChequeDDNo row, Amount = Amount row, Other = Other row,
      ChequeDDNo_str = ChequeDDNo_str row,
      Status = status, Bank_Amount = bank_amount, Difference = difference,
      Remarks = Original\<rparr>"

record loop_vars =
  all_entries_v :: "row_dict list"
  matched_entries :: "row_dict list"
  adjusted_entries :: "row_dict list"
  unmatched_entries :: "row_dict list"
  bank_matched :: "nat set"

text \<open>
  \<^verbatim>\<open>self.bank_df[self.bank_df['journal_number'] == journal]\<close>: the rows with that
  journal, each with its index, in the order of the frame.
\<close>

definition bank_match :: "txn list \<Rightarrow> string \<Rightarrow> (nat \<times> txn) list" where
  "bank_match bank journal = filter (\<lambda>(i, t). journal_number t = journal) (enumerate 0 bank)"

text \<open>The body of the loop over the entries, after the amount has been converted.\<close>

definition process_entry :: "txn list \<Rightarrow> entry \<Rightarrow> pyfloat \<Rightarrow> loop_vars \<Rightarrow> loop_vars" where
  "process_entry bank row amt v =
     (let journal = ChequeDDNo_str row
      in case bank_match bank journal of
           [] \<Rightarrow>
             (let d = to_dict row ''Not Found in Bank'' (CText '''') (CText '''')
              in v\<lparr>all_entries_v := all_entries_v v @ [d],
                   unmatched_entries := unmatched_entries v @ [d]\<rparr>)
         | (idx, t) # _ \<Rightarrow>
             (let bank_amount = amount t;
                  v1 = v\<lparr>bank_matched := insert idx (bank_matched v)\<rparr>
              in if flt (fabs (fsub bank_amount amt)) (Fin 1)
                 then
                   (let d = to_dict row ''Matched'' (CFloat bank_amount) (CInt 0)
                    in v1\<lparr>all_entries_v := all_entries_v v1 @ [d],
                          matched_entries := matched_entries v1 @ [d]\<rparr>)
                 else
                   (let difference = fsub bank_amount amt;
                        d = to_dict row ''Amount Mismatch'' (CFloat bank_amount)
                              (CFloat difference);
                        adj = d\<lparr>Amount := CFloat difference,
                                 Status := ''Adjustment Entry'',
                                 Remarks := Adjustment_for journal bank_amount amt difference\<rparr>
                    in v1\<lparr>all_entries_v := all_entries_v v1 @ [d, adj],
                          adjusted_entries := adjusted_entries v1 @ [d, adj]\<rparr>)))"

text \<open>
  The loop over the entries. \<^verbatim>\<open>float(row['Amount'])\<close> may raise, and the lookup in the
  statement reads its \<^verbatim>\<open>journal_number\<close> column; either failure ends \<^verbatim>\<open>reconcile\<close>.
\<close>

fun reconcile_loop :: "bank_frame \<Rightarrow> entry list \<Rightarrow> loop_vars \<Rightarrow> py_error + loop_vars" where
  "reconcile_loop bank [] v = Inr v"
| "reconcile_loop bank (row # rest) v =
     (case float_of_cell (Amount row) of
        Inl e \<Rightarrow> Inl e
      | Inr amt \<Rightarrow>
          (case journal_number_column bank of
             Inl e \<Rightarrow> Inl e
           | Inr col \<Rightarrow> reconcile_loop bank rest (process_entry (records bank) row amt v)))"

text \<open>The record made for a statement transaction that no entry consumed.\<close>

definition unregistered_entry :: "txn \<Rightarrow> (string \<times> cell) list" where
  "unregistered_entry bank_row =
     [(''PaymentDate'', CText (date bank_row)),
      (''CustomerName'', CText ''UNREGISTERED''),
      (''ChequeDDNo'', CText (journal_number bank_row)),
      (''Amount'', CFloat (amount bank_row)),
      (''PaymentMode'', CText ''BANK TRANSFER''),
      (''Bank'', CText ''Bank of Bhutan''),
      (''Remarks'', CText (description bank_row)),
      (''Status'', CText ''Not in Data Entry''),
      (''Bank_Amount'', CFloat (amount bank_row))]"

record categories =
  all_entries :: "row_dict list"
  matched :: "row_dict list"
  adjusted :: "row_dict list"
  unmatched :: "row_dict list"
  unregistered :: "(string \<times> cell) list list"

text \<open>\<^verbatim>\<open>BankReconciliation.reconcile\<close>.\<close>

definition reconcile :: "reconciliation \<Rightarrow> py_error + categories" where
  "reconcile self =
     (case reconcile_loop (bank_df self) (data_entry_df self)
             \<lparr>all_entries_v = [], matched_entries = [], adjusted_entries = [],
              unmatched_entries = [], bank_matched = {}\<rparr>
      of
        Inl e \<Rightarrow> Inl e
      | Inr v \<Rightarrow>
          Inr \<lparr>all_entries = all_entries_v v,
               matched = matched_entries v,
               adjusted = adjusted_entries v,
               unmatched = unmatched_entries v,
               unregistered =
                 map (\<lambda>(i, t). unregistered_entry t)
                   (filter (\<lambda>(i, t). i \<notin> bank_matched v)
                      (enumerate 0 (records (bank_df self))))\<rparr>)"

section \<open>Reading the report\<close>

text \<open>
  The ledger entry a report row was made from, and the rows that stand for an entry (all
  but the synthetic adjustment rows).
\<close>

definition entry_of :: "row_dict \<Rightarrow> entry" where
  "entry_of d =
     \<lparr>ChequeDDNo = ChequeDDNo d, Amount = Amount d, Other = Other d,
      ChequeDDNo_str = ChequeDDNo_str d\<rparr>"

definition primary :: "row_dict \<Rightarrow> bool" where
  "primary d = (Status d \<noteq> ''Adjustment Entry'')"

text \<open>The count of mismatches in \<^verbatim>\<open>generate_report\<close>.\<close>

definition mismatches_count :: "row_dict list \<Rightarrow> nat" where
  "mismatches_count adjusted_df =
     (if length adjusted_df > 0
      then length (filter (\<lambda>d. Status d = ''Amount Mismatch'') adjusted_df)
      else 0)"

text \<open>
  The invariant of the loop in \<^verbatim>\<open>reconcile\<close>, after the entries \<open>es\<close>: the rows that stand
  for entries are those of \<open>es\<close> in order, every status is one of four, and the three
  category lists are the rows of \<^verbatim>\<open>all_entries\<close> with the matching status.
\<close>

definition report_inv :: "entry list \<Rightarrow> loop_vars \<Rightarrow> bool" where
  "report_inv es v \<longleftrightarrow>
     map entry_of (filter primary (all_entries_v v)) = es \<and>
     (\<forall>d \<in> set (all_entries_v v).
        Status d = ''Matched'' \<or> Status d = ''Amount Mismatch'' \<or>
        Status d = ''Not Found in Bank'' \<or> Status d = ''Adjustment Entry'') \<and>
     matched_entries v = filter (\<lambda>d. Status d = ''Matched'') (all_entries_v v) \<and>
     adjusted_entries v =
       filter (\<lambda>d. Status d = ''Amount Mismatch'' \<or> Status d = ''Adjustment Entry'')
         (all_entries_v v) \<and>
     unmatched_entries v = filter (\<lambda>d. Status d = ''Not Found in Bank'') (all_entries_v v)"

section \<open>A worked example\<close>

text \<open>
  A statement of one table: a header, a payment, a closing-balance line, and two more
  payments, the last one repeating the journal of the first.
\<close>

definition example_statement :: pdf_document where
  "example_statement =
     Some [[[[Some ''Date'', None, Some ''Particulars'', Some ''Journal No'', None, None,
              Some ''Amount''],
             [Some ''01/01'', None, Some ''pay'', Some '' JRN1 '', None, None,
              Some ''Nu. 100.00''],
             [Some ''02/01'', None, Some ''Closing balance'', Some ''JRN2'', None, None,
              Some ''75''],
             [Some ''02/01'', None, Some ''fee'', Some ''JRN3'', None, None, Some ''75''],
             [Some ''03/01'', None, Some ''pay'', Some ''JRN1'', None, None,
              Some ''300'']]]]"

definition example_transactions :: "txn list" where
  "example_transactions =
     [\<lparr>date = ''01/01'', journal_number = ''JRN1'', description = ''pay'', amount = Fin 100\<rparr>,
      \<lparr>date = ''02/01'', journal_number = ''JRN3'', description = ''fee'', amount = Fin 75\<rparr>,
      \<lparr>date = ''03/01'', journal_number = ''JRN1'', description = ''pay'', amount = Fin 300\<rparr>]"

text \<open>
  A ledger of four rows: one that matches, one whose key is blank text, one without a key,
  and one whose amount differs from the statement's by 4.5.
\<close>

definition example_ledger :: "ledger_row list" where
  "example_ledger =
     [\<lparr>ChequeDDNo = Some ''JRN1'', Amount = CFloat (Fin 100), Other = []\<rparr>,
      \<lparr>ChequeDDNo = Some ''  '', Amount = CInt 200, Other = []\<rparr>,
      \<lparr>ChequeDDNo = None, Amount = CInt 50, Other = []\<rparr>,
      \<lparr>ChequeDDNo = Some ''JRN3'', Amount = CFloat (Fin (141 / 2)), Other = []\<rparr>]"

definition example_entries :: "entry list" where
  "example_entries =
     [\<lparr>ChequeDDNo = Some ''JRN1'', Amount = CFloat (Fin 100), Other = [],
       ChequeDDNo_str = ''JRN1''\<rparr>,
      \<lparr>ChequeDDNo = Some ''  '', Amount = CInt 200, Other = [], ChequeDDNo_str = ''''\<rparr>,
      \<lparr>ChequeDDNo = Some ''JRN3'', Amount = CFloat (Fin (141 / 2)), Other = [],
       ChequeDDNo_str = ''JRN3''\<rparr>]"

definition example_state :: reconciliation where
  "example_state =
     \<lparr>original_df = example_ledger,
      data_entry_df = example_entries,
      bank_df = DataFrame example_transactions\<rparr>"

definition example_matched_row :: row_dict where
  "example_matched_row =
     \<lparr>ChequeDDNo = Some ''JRN1'', Amount = CFloat (Fin 100), Other = [],
      ChequeDDNo_str = ''JRN1'', Status = ''Matched'', Bank_Amount = CFloat (Fin 100),
      Difference = CInt 0, Remarks = Original\<rparr>"

definition example_unmatched_row :: row_dict where
  "example_unmatched_row =
     \<lparr>ChequeDDNo = Some ''  '', Amount = CInt 200, Other = [],
      ChequeDDNo_str = '''', Status = ''Not Found in Bank'', Bank_Amount = CText '''',
      Difference = CText '''', Remarks = Original\<rparr>"

definition example_mismatch_row :: row_dict where
  "example_mismatch_row =
     \<lparr>ChequeDDNo = Some ''JRN3'', Amount = CFloat (Fin (141 / 2)), Other = [],
      ChequeDDNo_str = ''JRN3'', Status = ''Amount Mismatch'', Bank_Amount = CFloat (Fin 75),
      Difference = CFloat (Fin (9 / 2)), Remarks = Original\<rparr>"

definition example_adjustment_row :: row_dict where
  "example_adjustment_row =
     \<lparr>ChequeDDNo = Some ''JRN3'', Amount = CFloat (Fin (9 / 2)), Other = [],
      ChequeDDNo_str = ''JRN3'', Status = ''Adjustment Entry'', Bank_Amount = CFloat (Fin 75),
      Difference = CFloat (Fin (9 / 2)),
      Remarks = Adjustment_for ''JRN3'' (Fin 75) (Fin (141 / 2)) (Fin (9 / 2))\<rparr>"

definition example_report :: categories where
  "example_report =
     \<lparr>all_entries = [example_matched_row, example_unmatched_row, example_mismatch_row,
                     example_adjustment_row],
      matched = [example_matched_row],
      adjusted = [example_mismatch_row, example_adjustment_row],
      unmatched = [example_unmatched_row],
      unregistered =
        [[(''PaymentDate'', CText ''03/01''),
          (''CustomerName'', CText ''UNREGISTERED''),
          (''ChequeDDNo'', CText ''JRN1''),
          (''Amount'', CFloat (Fin 300)),
          (''PaymentMode'', CText ''BANK TRANSFER''),
          (''Bank'', CText ''Bank of Bhutan''),
          (''Remarks'', CText ''pay''),
          (''Status'', CText ''Not in Data Entry''),
          (''Bank_Amount'', CFloat (Fin 300))]]\<rparr>"

section \<open>The matching rule, entry by entry\<close>

text \<open>
  The row that the loop body of \<^verbatim>\<open>reconcile\<close> makes for an entry whose amount converted to
  \<open>amt\<close>, and the adjustment row that follows a mismatch. They restate the three branches
  of the loop body as functions of the entry alone, for the statements below; the loop
  itself is \<open>process_entry\<close>.
\<close>

definition classify :: "txn list \<Rightarrow> entry \<Rightarrow> pyfloat \<Rightarrow> row_dict" where
  "classify bank row amt =
     (case bank_match bank (ChequeDDNo_str row) of
        [] \<Rightarrow> to_dict row ''Not Found in Bank'' (CText '''') (CText '''')
      | (idx, t) # rest \<Rightarrow>
          if flt (fabs (fsub (amount t) amt)) (Fin 1)
          then to_dict row ''Matched'' (CFloat (amount t)) (CInt 0)
          else to_dict row ''Amount Mismatch'' (CFloat (amount t))
                 (CFloat (fsub (amount t) amt)))"

definition adjustment_row :: "row_dict \<Rightarrow> pyfloat \<Rightarrow> pyfloat \<Rightarrow> row_dict" where
  "adjustment_row d bank_amount amt =
     d\<lparr>Amount := CFloat (fsub bank_amount amt),
       Status := ''Adjustment Entry'',
       Remarks := Adjustment_for (ChequeDDNo_str d) bank_amount amt (fsub bank_amount amt)\<rparr>"

text \<open>
  The subtraction \<^verbatim>\<open>bank_amount - amount\<close> is exact: both amounts are finite floats and
  the difference needs no rounding.
\<close>

definition exact_difference :: "pyfloat \<Rightarrow> pyfloat \<Rightarrow> bool" where
  "exact_difference bank_amount amt =
     (case (bank_amount, amt) of
        (Fin b, Fin a) \<Rightarrow> round_double b = Fin b \<and> fsub (Fin b) (Fin a) = Fin (b - a)
      | _ \<Rightarrow> False)"

text \<open>
  The statement transaction at index \<open>i\<close> is consumed by a match: some filtered entry has
  its journal as key, and no earlier transaction has the same journal.
\<close>

definition consumed :: "txn list \<Rightarrow> entry list \<Rightarrow> nat \<Rightarrow> bool" where
  "consumed bank es i =
     (i < length bank
      \<and> (\<exists>e \<in> set es. ChequeDDNo_str e = journal_number (bank ! i))
      \<and> (\<forall>k < i. journal_number (bank ! k) \<noteq> journal_number (bank ! i)))"

text \<open>
  What holds of the rows after the entries \<open>es\<close>: a row that stands for an entry is the row
  of the matching rule; a mismatch row is followed at once by its adjustment row, in
  \<^verbatim>\<open>all_entries\<close> and in \<^verbatim>\<open>adjusted\<close>; and the consumed transactions are those of
  \<open>consumed\<close>.
\<close>

definition rows_inv :: "txn list \<Rightarrow> entry list \<Rightarrow> loop_vars \<Rightarrow> bool" where
  "rows_inv bank es v \<longleftrightarrow>
     (\<forall>d \<in> set (all_entries_v v). primary d \<longrightarrow>
        entry_of d \<in> set es \<and>
        (\<exists>amt. float_of_cell (Amount d) = Inr amt \<and> d = classify bank (entry_of d) amt)) \<and>
     (\<forall>d \<in> set (all_entries_v v). Status d = ''Amount Mismatch'' \<longrightarrow>
        (\<exists>idx t rest amt.
           bank_match bank (ChequeDDNo_str d) = (idx, t) # rest
           \<and> float_of_cell (Amount d) = Inr amt
           \<and> (\<exists>pre post. all_entries_v v = pre @ d # adjustment_row d (amount t) amt # post)
           \<and> (\<exists>pre post. adjusted_entries v = pre @ d # adjustment_row d (amount t) amt # post))) \<and>
     (\<forall>d \<in> set (all_entries_v v). \<exists>e \<in> set es. ChequeDDNo d = ChequeDDNo e) \<and>
     bank_matched v = {i. consumed bank es i}"

section \<open>Two small ledgers at the edges of the matching rule\<close>

text \<open>
  An entry of 100 against a statement line of 101: the difference is exactly \<open>1.0\<close>.
\<close>

definition boundary_entry :: entry where
  "boundary_entry =
     \<lparr>ChequeDDNo = Some ''JRN1'', Amount = CFloat (Fin 100), Other = [],
      ChequeDDNo_str = ''JRN1''\<rparr>"

definition boundary_txn :: txn where
  "boundary_txn =
     \<lparr>date = ''01/01'', journal_number = ''JRN1'', description = ''pay'', amount = Fin 101\<rparr>"

definition boundary_state :: reconciliation where
  "boundary_state =
     \<lparr>original_df = [\<lparr>ChequeDDNo = Some ''JRN1'', Amount = CFloat (Fin 100), Other = []\<rparr>],
      data_entry_df = [boundary_entry],
      bank_df = DataFrame [boundary_txn]\<rparr>"

definition boundary_row :: row_dict where
  "boundary_row =
     \<lparr>ChequeDDNo = Some ''JRN1'', Amount = CFloat (Fin 100), Other = [],
      ChequeDDNo_str = ''JRN1'', Status = ''Amount Mismatch'', Bank_Amount = CFloat (Fin 101),
      Difference = CFloat (Fin 1), Remarks = Original\<rparr>"

definition boundary_report :: categories where
  "boundary_report =
     \<lparr>all_entries = [boundary_row, adjustment_row boundary_row (Fin 101) (Fin 100)],
      matched = [],
      adjusted = [boundary_row, adjustment_row boundary_row (Fin 101) (Fin 100)],
      unmatched = [],
      unregistered = []\<rparr>"

text \<open>
  An entry of 100 against a statement line of 0.10. The float nearest to 0.1 is
  \<open>3602879701896397 / 2\<^sup>5\<^sup>5\<close>; the float difference \<^verbatim>\<open>0.1 - 100.0\<close> is \<open>-99.9\<close>, that is
  \<open>- 3514918771674317 / 2\<^sup>4\<^sup>5\<close>; and \<^verbatim>\<open>100.0 + (0.1 - 100.0)\<close> is \<open>0.09999999999999432\<close>, that
  is \<open>3518437208883 / 2\<^sup>4\<^sup>5\<close>.
\<close>

definition rounding_entry :: entry where
  "rounding_entry =
     \<lparr>ChequeDDNo = Some ''JRN1'', Amount = CFloat (Fin 100), Other = [],
      ChequeDDNo_str = ''JRN1''\<rparr>"

definition rounding_txn :: txn where
  "rounding_txn =
     \<lparr>date = ''01/01'', journal_number = ''JRN1'', description = ''pay'',
      amount = Fin (3602879701896397 / 36028797018963968)\<rparr>"

definition rounding_state :: reconciliation where
  "rounding_state =
     \<lparr>original_df = [\<lparr>ChequeDDNo = Some ''JRN1'', Amount = CFloat (Fin 100), Other = []\<rparr>],
      data_entry_df = [rounding_entry],
      bank_df = DataFrame [rounding_txn]\<rparr>"

definition rounding_row :: row_dict where
  "rounding_row =
     \<lparr>ChequeDDNo = Some ''JRN1'', Amount = CFloat (Fin 100), Other = [],
      ChequeDDNo_str = ''JRN1'', Status = ''Amount Mismatch'',
      Bank_Amount = CFloat (Fin (3602879701896397 / 36028797018963968)),
      Difference = CFloat (Fin (- (3514918771674317 / 35184372088832))),
      Remarks = Original\<rparr>"

definition rounding_adjustment :: row_dict where
  "rounding_adjustment =
     \<lparr>ChequeDDNo = Some ''JRN1'',
      Amount = CFloat (Fin (- (3514918771674317 / 35184372088832))), Other = [],
      ChequeDDNo_str = ''JRN1'', Status = ''Adjustment Entry'',
      Bank_Amount = CFloat (Fin (3602879701896397 / 36028797018963968)),
      Difference = CFloat (Fin (- (3514918771674317 / 35184372088832))),
      Remarks = Adjustment_for ''JRN1'' (Fin (3602879701896397 / 36028797018963968)) (Fin 100)
                  (Fin (- (3514918771674317 / 35184372088832)))\<rparr>"

definition rounding_report :: categories where
  "rounding_report =
     \<lparr>all_entries = [rounding_row, rounding_adjustment],
      matched = [],
      adjusted = [rounding_row, rounding_adjustment],
      unmatched = [],
      unregistered = []\<rparr>"

section \<open>The reconcile endpoint\<close>

text \<open>
  \<^verbatim>\<open>reconcile_files\<close>, from the two uploaded files on: the reconciler is constructed, the
  report is generated, and any exception on the way is answered with status 500. The
  report generator is a parameter here; its parts are modelled in the sections on the
  statistics and on the workbook.
\<close>

definition reconcile_files ::
  "(reconciliation \<Rightarrow> py_error + 'stats) \<Rightarrow> ledger_row list \<Rightarrow> pdf_document
     \<Rightarrow> py_error + 'stats" where
  "reconcile_files generate_report df pdf =
     (case BankReconciliation_init df pdf of
        Inl e \<Rightarrow> Inl (HTTPException 500)
      | Inr reconciler \<Rightarrow>
          (case generate_report reconciler of
             Inl e \<Rightarrow> Inl (HTTPException 500)
           | Inr stats \<Rightarrow> Inr stats))"

text \<open>A readable statement whose only table has no header row with \<^verbatim>\<open>JOURNAL\<close> in it.\<close>

definition headerless_statement :: pdf_document where
  "headerless_statement =
     Some [[[[Some ''Date'', Some ''Reference'', Some ''Amount''],
             [Some ''01/01'', Some ''JRN1'', Some ''100.00'']]]]"

section \<open>Characters that \<open>repr\<close> leaves alone\<close>


section \<open>Statistics\<close>

fun fmul :: "pyfloat \<Rightarrow> pyfloat \<Rightarrow> pyfloat" where
  "fmul NaN b = NaN"
| "fmul a NaN = NaN"
| "fmul (Fin x) (Fin y) = round_double (x * y)"
| "fmul (Fin x) PInf = (if x = 0 then NaN else if 0 < x then PInf else NInf)"
| "fmul (Fin x) NInf = (if x = 0 then NaN else if 0 < x then NInf else PInf)"
| "fmul PInf (Fin y) = (if y = 0 then NaN else if 0 < y then PInf else NInf)"
| "fmul NInf (Fin y) = (if y = 0 then NaN else if 0 < y then NInf else PInf)"
| "fmul PInf PInf = PInf"
| "fmul PInf NInf = NInf"
| "fmul NInf PInf = NInf"
| "fmul NInf NInf = PInf"

text \<open>
  \<^verbatim>\<open>a / b\<close> on integers: the quotient rounded to the nearest float, a
  \<^verbatim>\<open>ZeroDivisionError\<close> for a zero divisor, an \<^verbatim>\<open>OverflowError\<close> for a quotient too large
  for a float.
\<close>

definition int_truediv :: "int \<Rightarrow> int \<Rightarrow> py_error + pyfloat" where
  "int_truediv a b =
     (if b = 0 then Inl ZeroDivisionError
      else
        (case round_double (of_int a / of_int b) of
           Fin q \<Rightarrow> Inr (Fin q)
         | _ \<Rightarrow> Inl OverflowError))"

definition digit_char :: "nat \<Rightarrow> char" where
  "digit_char n = ''0123456789'' ! n"

fun str_nat :: "nat \<Rightarrow> string" where
  "str_nat n = (if n < 10 then [digit_char n] else str_nat (n div 10) @ [digit_char (n mod 10)])"

declare str_nat.simps [simp del]

text \<open>
  The format \<^verbatim>\<open>.1f\<close>: the value rounded to one decimal, ties to even, on the exact value of
  the float.
\<close>

definition format_1f :: "pyfloat \<Rightarrow> string" where
  "format_1f x =
     (case x of
        NaN \<Rightarrow> ''nan''
      | PInf \<Rightarrow> ''inf''
      | NInf \<Rightarrow> ''-inf''
      | Fin q \<Rightarrow>
          (let k = nat (round_half_even (\<bar>q\<bar> * 10))
           in (if q < 0 then ''-'' else '''') @ str_nat (k div 10) @ ''.'' @ str_nat (k mod 10)))"

text \<open>The counts of the statistics record of \<^verbatim>\<open>generate_report\<close>.\<close>

record stats =
  total_entries :: nat
  stats_matched :: nat
  mismatches :: nat
  stats_unmatched :: nat
  stats_unregistered :: nat
  total_bank_transactions :: nat

definition count_stats :: "reconciliation \<Rightarrow> categories \<Rightarrow> stats" where
  "count_stats self cats =
     \<lparr>total_entries = length (data_entry_df self),
      stats_matched = length (matched cats),
      mismatches = mismatches_count (adjusted cats),
      stats_unmatched = length (unmatched cats),
      stats_unregistered = length (unregistered cats),
      total_bank_transactions = length (records (bank_df self))\<rparr>"

text \<open>
  The last cell of the summary sheet:
  \<^verbatim>\<open>f"{(stats['matched']/stats['total_entries']*100):.1f}%" if stats['total_entries'] > 0 else '0%'\<close>.
\<close>

definition summary_accuracy :: "stats \<Rightarrow> py_error + string" where
  "summary_accuracy st =
     (if total_entries st > 0 then
        (case int_truediv (int (stats_matched st)) (int (total_entries st)) of
           Inl e \<Rightarrow> Inl e
         | Inr q \<Rightarrow> Inr (format_1f (fmul q (Fin 100)) @ ''%''))
      else Inr ''0%'')"

text \<open>
  The counts of a run with two filtered entries, one of them matched, and the counts of a
  run without any filtered entry.
\<close>

definition half_stats :: stats where
  "half_stats =
     \<lparr>total_entries = 2, stats_matched = 1, mismatches = 0, stats_unmatched = 1,
      stats_unregistered = 1, total_bank_transactions = 2\<rparr>"

definition empty_stats :: stats where
  "empty_stats =
     \<lparr>total_entries = 0, stats_matched = 0, mismatches = 0, stats_unmatched = 0,
      stats_unregistered = 1, total_bank_transactions = 1\<rparr>"

section \<open>The workbook and its total rows\<close>

text \<open>
  A data frame as it is written to a sheet: the column names and the rows of values.
\<close>

record frame =
  frame_columns :: "string list"
  frame_rows :: "cell list list"

text \<open>
  A worksheet is its dictionary of cells, from (row, column) to the value, both counted
  from 1; the binding nearest to the front of the list is the current one.
\<close>

type_synonym worksheet = "((nat \<times> nat) \<times> cell) list"

definition max_row :: "worksheet \<Rightarrow> nat" where
  "max_row ws = Max (insert 1 (set (map (\<lambda>((r, c), v). r) ws)))"

definition max_column :: "worksheet \<Rightarrow> nat" where
  "max_column ws = Max (insert 1 (set (map (\<lambda>((r, c), v). c) ws)))"

definition cell_value :: "worksheet \<Rightarrow> nat \<times> nat \<Rightarrow> cell" where
  "cell_value ws rc = (case map_of ws rc of Some v \<Rightarrow> v | None \<Rightarrow> CNone)"

text \<open>\<^verbatim>\<open>ws.cell(row, column)\<close> makes the cell, empty, when the sheet does not have it yet.\<close>

definition touch :: "worksheet \<Rightarrow> nat \<times> nat \<Rightarrow> worksheet" where
  "touch ws rc = (if rc \<in> set (map fst ws) then ws else (rc, CNone) # ws)"

definition set_value :: "worksheet \<Rightarrow> nat \<times> nat \<Rightarrow> cell \<Rightarrow> worksheet" where
  "set_value ws rc v = (rc, v) # ws"

text \<open>
  \<^verbatim>\<open>df.to_excel(writer, index=False)\<close>: the column names in row 1, then one sheet row for
  each row of the frame, a cell being written for every value.
\<close>

definition to_excel :: "frame \<Rightarrow> worksheet" where
  "to_excel df =
     map (\<lambda>j. ((1, j + 1), CText (frame_columns df ! j))) [0..<length (frame_columns df)]
     @ concat
         (map (\<lambda>i. map (\<lambda>j. ((i + 2, j + 1), frame_rows df ! i ! j))
                     [0..<length (frame_rows df ! i)])
            [0..<length (frame_rows df)])"

text \<open>The sheet written for a category: the frame, or one message when it is empty.\<close>

definition sheet_frame :: "frame \<Rightarrow> string \<Rightarrow> frame" where
  "sheet_frame df message =
     (if length (frame_rows df) > 0 then df
      else \<lparr>frame_columns = [''Message''], frame_rows = [[CText message]]\<rparr>)"

text \<open>\<^verbatim>\<open>get_column_letter\<close>: \<open>A\<close>, \<dots>, \<open>Z\<close>, \<open>AA\<close>, \<dots>, for the indices 1 to 18278.\<close>

definition letter :: "nat \<Rightarrow> char" where
  "letter n = ''ABCDEFGHIJKLMNOPQRSTUVWXYZ'' ! (n - 1)"

function column_letters :: "nat \<Rightarrow> string" where
  "column_letters col_idx =
     (if col_idx = 0 then []
      else if col_idx mod 26 = 0
        then column_letters (col_idx div 26 - 1) @ [letter 26]
        else column_letters (col_idx div 26) @ [letter (col_idx mod 26)])"
  by pat_completeness auto
termination
  by (relation "measure id") (auto intro: diff_less_mono2)

declare column_letters.simps [simp del]

definition get_column_letter :: "nat \<Rightarrow> py_error + string" where
  "get_column_letter col_idx =
     (if 1 \<le> col_idx \<and> col_idx \<le> 18278 then Inr (column_letters col_idx)
      else Inl ValueError)"

text \<open>
  The sheets of the report. Their names in the source carry symbols outside ASCII, so
  they are a type here.
\<close>

datatype sheet =
    All_Entries | Matched_Sheet | Adjusted_Sheet | Unmatched_Sheet | Unregistered_Sheet
  | Summary_Sheet | Bank_Statement_Sheet

definition sheets_with_totals :: "sheet list" where
  "sheets_with_totals =
     [All_Entries, Matched_Sheet, Adjusted_Sheet, Unmatched_Sheet, Unregistered_Sheet,
      Bank_Statement_Sheet]"

text \<open>The search for the \<^verbatim>\<open>Amount\<close> column along row 1, over the given column indices.\<close>

fun find_amount_col :: "worksheet \<Rightarrow> nat list \<Rightarrow> worksheet \<times> nat option" where
  "find_amount_col ws [] = (ws, None)"
| "find_amount_col ws (col_idx # rest) =
     (let ws1 = touch ws (1, col_idx)
      in if cell_value ws1 (1, col_idx) = CText ''Amount'' then (ws1, Some col_idx)
         else find_amount_col ws1 rest)"

text \<open>The body of the loop over the sheets in the second pass of \<^verbatim>\<open>generate_report\<close>.\<close>

definition total_pass :: "sheet \<Rightarrow> worksheet \<Rightarrow> py_error + worksheet" where
  "total_pass sheet_name ws =
     (if sheet_name = Summary_Sheet then Inr ws
      else if sheet_name \<in> set sheets_with_totals \<and> max_row ws > 1 then
        (let total_row = max_row ws + 1;
             (ws1, amount_col_idx) = find_amount_col ws [1..<max_column ws + 1]
         in case amount_col_idx of
              None \<Rightarrow> Inr ws1
            | Some idx \<Rightarrow>
                (let ws2 = set_value ws1 (total_row, 1) (CText ''TOTAL'')
                 in case get_column_letter idx of
                      Inl e \<Rightarrow> Inl e
                    | Inr col \<Rightarrow>
                        Inr (set_value ws2 (total_row, idx)
                               (CText (''=SUM('' @ col @ ''2:'' @ col
                                        @ str_nat (max_row ws2 - 1) @ '')'')))))
      else Inr ws)"

text \<open>The frame of the bank statement sheet, with its renamed columns.\<close>

definition bank_display_df :: "bank_frame \<Rightarrow> frame" where
  "bank_display_df df =
     \<lparr>frame_columns = [''Date'', ''Journal #'', ''Description'', ''Amount''],
      frame_rows =
        map (\<lambda>t. [CText (date t), CText (journal_number t), CText (description t),
                   CFloat (amount t)])
          (records df)\<rparr>"

text \<open>
  A frame as pandas holds it: it has a column, and every row has one value for each
  column.
\<close>

definition well_formed :: "frame \<Rightarrow> bool" where
  "well_formed df \<longleftrightarrow>
     frame_columns df \<noteq> []
     \<and> (\<forall>row \<in> set (frame_rows df). length row = length (frame_columns df))"

section \<open>Facts about rounding\<close>

lemma pow2_powi: "pow2 k = 2 powi k"
  by (simp add: pow2_def power_int_def inverse_eq_divide power_divide)

lemma pow2_pos: "0 < pow2 k"
  by (simp add: pow2_powi)

lemma pow2_add: "pow2 (a + b) = pow2 a * pow2 b"
  by (simp add: pow2_powi power_int_add)

lemma pow2_mono: "a \<le> b \<Longrightarrow> pow2 a \<le> pow2 b"
  by (simp add: pow2_powi power_int_increasing)

lemma pow2_strict_mono: "a < b \<Longrightarrow> pow2 a < pow2 b"
  by (simp add: pow2_powi power_int_strict_increasing)

lemma pow2_nat: "pow2 (int n) = 2 ^ n"
  by (simp add: pow2_def)

lemma bit_length_upper: "n < 2 ^ bit_length n"
proof (induction n rule: bit_length.induct)
  case (1 n)
  show ?case
  proof (cases "n = 0")
    case True
    then show ?thesis by (simp add: bit_length.simps)
  next
    case False
    with 1 have "n div 2 < 2 ^ bit_length (n div 2)" by simp
    then have "n < 2 * 2 ^ bit_length (n div 2)" by arith
    with False show ?thesis by (simp add: bit_length.simps [of n])
  qed
qed

lemma bit_length_pos: "0 < n \<Longrightarrow> 0 < bit_length n"
  by (simp add: bit_length.simps [of n])

lemma bit_length_lower: "0 < n \<Longrightarrow> 2 ^ (bit_length n - 1) \<le> n"
proof (induction n rule: bit_length.induct)
  case (1 n)
  then have n: "n \<noteq> 0" by simp
  show ?case
  proof (cases "n div 2 = 0")
    case True
    with n have "bit_length n = 1"
      by (simp add: bit_length.simps [of n] bit_length.simps [of 0])
    with 1 show ?thesis by simp
  next
    case False
    then have pos: "0 < n div 2" by simp
    with 1 n have ih: "2 ^ (bit_length (n div 2) - 1) \<le> n div 2" by simp
    from pos have "0 < bit_length (n div 2)" by (rule bit_length_pos)
    then have "bit_length n - 1 = Suc (bit_length (n div 2) - 1)"
      using n by (simp add: bit_length.simps [of n])
    with ih show ?thesis by simp
  qed
qed

lemma floor_log2_le:
  assumes "0 < x"
  shows "pow2 (floor_log2 x) \<le> x"
proof (cases "1 \<le> x")
  case True
  define m where "m = nat \<lfloor>x\<rfloor>"
  from True have m: "0 < m" "rat_of_nat m \<le> x"
    unfolding m_def by simp_all
  have "floor_log2 x = int (bit_length m - 1)"
    using True bit_length_pos [OF m(1)] by (simp add: floor_log2_def m_def)
  then have "pow2 (floor_log2 x) = 2 ^ (bit_length m - 1)"
    by (simp add: pow2_nat)
  also have "\<dots> \<le> rat_of_nat m"
    using bit_length_lower [OF m(1)] by (metis of_nat_le_iff of_nat_numeral of_nat_power)
  finally show ?thesis using m(2) by simp
next
  case False
  define m where "m = nat (\<lceil>1 / x\<rceil> - 1)"
  from assms False have "1 < 1 / x" by simp
  then have c: "1 \<le> \<lceil>1 / x\<rceil> - 1" by (simp add: less_ceiling_iff)
  have "1 / x \<le> rat_of_int \<lceil>1 / x\<rceil>" by (rule le_of_int_ceiling)
  also have "\<dots> = rat_of_nat m + 1"
  proof -
    have "int m = \<lceil>1 / x\<rceil> - 1" using c unfolding m_def by linarith
    then have "rat_of_int (int m) = rat_of_int (\<lceil>1 / x\<rceil> - 1)" by (simp only:)
    then show ?thesis by simp
  qed
  also have "\<dots> \<le> 2 ^ bit_length m"
  proof -
    have "m + 1 \<le> 2 ^ bit_length m" using bit_length_upper [of m] by simp
    then have "rat_of_nat (m + 1) \<le> rat_of_nat (2 ^ bit_length m)"
      by (simp only: of_nat_le_iff)
    then show ?thesis by simp
  qed
  finally have "1 / x \<le> 2 ^ bit_length m" .
  then have "1 / 2 ^ bit_length m \<le> x"
    using assms by (simp add: field_simps)
  moreover have "pow2 (floor_log2 x) = 1 / 2 ^ bit_length m"
    using False by (simp add: floor_log2_def m_def pow2_def)
  ultimately show ?thesis by simp
qed

lemma round_half_even_of_int: "round_half_even (of_int z) = z"
  by (simp add: round_half_even_def)

lemma pow2_le_imp_le: "pow2 a \<le> pow2 b \<Longrightarrow> a \<le> b"
  using pow2_strict_mono [of b a] by (cases "a \<le> b") auto

lemma pow2_less_imp_less: "pow2 a < pow2 b \<Longrightarrow> a < b"
  using pow2_mono [of b a] by (cases "a < b") auto

lemma round_double_exact:
  assumes x: "x = of_int n * pow2 k"
    and n: "\<bar>n\<bar> < 2 ^ 53"
    and k: "- 1074 \<le> k"
    and bound: "\<bar>x\<bar> < pow2 1024"
  shows "round_double x = Fin x"
proof (cases "x = 0")
  case True
  then show ?thesis by (simp add: round_double_def)
next
  case False
  define e where "e = max (floor_log2 \<bar>x\<bar>) (- 1022)"
  define d where "d = k - (e - 52)"
  have "floor_log2 \<bar>x\<bar> < 53 + k"
  proof -
    have "pow2 (floor_log2 \<bar>x\<bar>) \<le> \<bar>x\<bar>"
      using False by (intro floor_log2_le) simp
    also have "\<bar>x\<bar> = rat_of_int \<bar>n\<bar> * pow2 k"
      using pow2_pos [of k] by (simp add: x abs_mult)
    also have "\<dots> < rat_of_int (2 ^ 53) * pow2 k"
      using n pow2_pos [of k] by (intro mult_strict_right_mono) (simp_all only: of_int_less_iff)
    also have "\<dots> = pow2 (53 + k)"
    proof -
      have "rat_of_int (2 ^ 53) = pow2 53" by (simp add: pow2_def)
      then show ?thesis by (simp only: pow2_add)
    qed
    finally show ?thesis by (rule pow2_less_imp_less)
  qed
  with k have d: "0 \<le> d" by (simp add: d_def e_def)
  have "pow2 k = pow2 d * pow2 (e - 52)"
    by (simp add: d_def flip: pow2_add)
  then have "x / pow2 (e - 52) = of_int n * pow2 d"
    using pow2_pos [of "e - 52"] by (simp add: x)
  also have "\<dots> = rat_of_int (n * 2 ^ nat d)"
    using d by (simp add: pow2_def)
  finally have q: "x / pow2 (e - 52) = rat_of_int (n * 2 ^ nat d)" .
  have "rat_of_int (round_half_even (x / pow2 (e - 52))) * pow2 (e - 52) = x"
    unfolding q round_half_even_of_int unfolding q [symmetric]
    using pow2_pos [of "e - 52"] by simp
  with False bound show ?thesis
    by (simp add: round_double_def Let_def e_def)
qed

lemma floor_log2_gt:
  assumes "0 < x"
  shows "x < pow2 (floor_log2 x + 1)"
proof (cases "1 \<le> x")
  case True
  define m where "m = nat \<lfloor>x\<rfloor>"
  from True have m: "0 < m" and xm: "x < rat_of_nat m + 1"
    unfolding m_def by simp_all linarith
  have fl: "floor_log2 x + 1 = int (bit_length m)"
    using True bit_length_pos [OF m] by (simp add: floor_log2_def m_def)
  have "m + 1 \<le> 2 ^ bit_length m" using bit_length_upper [of m] by simp
  then have "rat_of_nat (m + 1) \<le> rat_of_nat (2 ^ bit_length m)"
    by (simp only: of_nat_le_iff)
  then have "rat_of_nat m + 1 \<le> 2 ^ bit_length m" by simp
  with xm show ?thesis unfolding fl pow2_nat by simp
next
  case False
  define m where "m = nat (\<lceil>1 / x\<rceil> - 1)"
  from assms False have gt1: "1 < 1 / x" by simp
  then have c: "1 \<le> \<lceil>1 / x\<rceil> - 1" by (simp add: less_ceiling_iff)
  then have m: "0 < m" unfolding m_def by linarith
  have im: "int m = \<lceil>1 / x\<rceil> - 1" using c unfolding m_def by linarith
  have "rat_of_int (\<lceil>1 / x\<rceil> - 1) < 1 / x"
    using ceiling_correct [of "1 / x"] by simp
  then have mx: "rat_of_nat m < 1 / x"
    using im by (metis of_int_of_nat_eq)
  have "(2::rat) ^ (bit_length m - 1) \<le> rat_of_nat m"
    using bit_length_lower [OF m] by (metis of_nat_le_iff of_nat_numeral of_nat_power)
  with mx have "2 ^ (bit_length m - 1) < 1 / x" by linarith
  then have "x * 2 ^ (bit_length m - 1) < 1"
    using assms by (simp add: field_simps)
  moreover have "(2::rat) ^ bit_length m = 2 * 2 ^ (bit_length m - 1)"
    using bit_length_pos [OF m] by (cases "bit_length m") simp_all
  ultimately have "x * 2 ^ bit_length m < 2" by simp
  then have x: "x < 2 / 2 ^ bit_length m" by (simp add: field_simps)
  have "floor_log2 x + 1 = 1 - int (bit_length m)"
    using False by (simp add: floor_log2_def m_def)
  moreover have "pow2 (1 - int (bit_length m)) = 2 / 2 ^ bit_length m"
  proof -
    have "pow2 (1 - int (bit_length m)) = pow2 1 * pow2 (- int (bit_length m))"
      by (simp flip: pow2_add)
    also have "\<dots> = 2 / 2 ^ bit_length m" by (simp add: pow2_def)
    finally show ?thesis .
  qed
  ultimately show ?thesis using x by simp
qed

lemma floor_log2_unique:
  assumes "pow2 e \<le> x" and "x < pow2 (e + 1)"
  shows "floor_log2 x = e"
proof -
  have pos: "0 < x" using pow2_pos [of e] assms(1) by simp
  have "pow2 e < pow2 (floor_log2 x + 1)"
    using assms(1) floor_log2_gt [OF pos] by simp
  then have "e < floor_log2 x + 1" by (rule pow2_less_imp_less)
  moreover have "pow2 (floor_log2 x) < pow2 (e + 1)"
    using floor_log2_le [OF pos] assms(2) by simp
  then have "floor_log2 x < e + 1" by (rule pow2_less_imp_less)
  ultimately show ?thesis by simp
qed

lemma round_half_even_between:
  assumes "rat_of_int n - 1 / 2 < y" and "y < rat_of_int n + 1 / 2"
  shows "round_half_even y = n"
proof -
  have "\<lfloor>y\<rfloor> = n \<or> \<lfloor>y\<rfloor> = n - 1"
  proof -
    have "n - 1 \<le> \<lfloor>y\<rfloor>" using assms(1) by (simp add: le_floor_iff)
    moreover have "y < rat_of_int (n + 1)" using assms(2) by simp
    then have "\<lfloor>y\<rfloor> < n + 1" by (simp only: floor_less_iff)
    ultimately show ?thesis by linarith
  qed
  then show ?thesis
  proof
    assume f: "\<lfloor>y\<rfloor> = n"
    with assms(2) show ?thesis by (simp add: round_half_even_def Let_def)
  next
    assume f: "\<lfloor>y\<rfloor> = n - 1"
    with assms(1) show ?thesis by (simp add: round_half_even_def Let_def)
  qed
qed

lemma round_double_between:
  assumes "pow2 e \<le> \<bar>x\<bar>" and "\<bar>x\<bar> < pow2 (e + 1)" and "- 1022 \<le> e"
    and "rat_of_int n - 1 / 2 < x / pow2 (e - 52)"
    and "x / pow2 (e - 52) < rat_of_int n + 1 / 2"
    and "\<bar>rat_of_int n * pow2 (e - 52)\<bar> < pow2 1024"
  shows "round_double x = Fin (rat_of_int n * pow2 (e - 52))"
proof -
  have "x \<noteq> 0" using pow2_pos [of e] assms(1) by auto
  moreover have "max (floor_log2 \<bar>x\<bar>) (- 1022) = e"
    using floor_log2_unique [OF assms(1,2)] assms(3) by simp
  moreover have "round_half_even (x / pow2 (e - 52)) = n"
    using assms(4,5) by (rule round_half_even_between)
  ultimately show ?thesis using assms(6) by (simp add: round_double_def Let_def)
qed

lemma ex_diff:
  "fsub (Fin (3602879701896397 / 36028797018963968)) (Fin 100)
     = Fin (- (3514918771674317 / 35184372088832))"
proof -
  have "round_double (3602879701896397 / 36028797018963968 - 100)
      = Fin (rat_of_int (- 7029837543348634) * pow2 (6 - 52))"
    by (rule round_double_between) (simp_all add: pow2_def)
  then show ?thesis by (simp add: fsub_def pow2_def)
qed

lemma ex_sum:
  "fadd (Fin 100) (Fin (- (3514918771674317 / 35184372088832)))
     = Fin (3518437208883 / 35184372088832)"
proof -
  have "round_double (3518437208883 / 35184372088832) = Fin (3518437208883 / 35184372088832)"
    by (rule round_double_exact [where n = 3518437208883 and k = "- 45"])
      (simp_all add: pow2_def)
  then show ?thesis by simp
qed

section \<open>The amount parser\<close>






section \<open>The matcher\<close>

lemma entry_of_to_dict [simp]: "entry_of (to_dict row s b d) = row"
  by (simp add: entry_of_def to_dict_def)

lemma Status_to_dict [simp]: "Status (to_dict row s b d) = s"
  by (simp add: to_dict_def)

lemma reconcile_loop_invariant:
  assumes "reconcile_loop bank rs v = Inr v'"
    and "I es v"
    and step: "\<And>es v row amt. I es v \<Longrightarrow> float_of_cell (Amount row) = Inr amt \<Longrightarrow>
            I (es @ [row]) (process_entry (records bank) row amt v)"
  shows "I (es @ rs) v'"
  using assms(1,2)
proof (induction rs arbitrary: es v)
  case Nil
  then show ?case by simp
next
  case (Cons row rs)
  from Cons.prems(1) obtain amt where amt: "float_of_cell (Amount row) = Inr amt"
    and rest: "reconcile_loop bank rs (process_entry (records bank) row amt v) = Inr v'"
    by (auto split: sum.splits)
  from Cons.prems(2) amt have "I (es @ [row]) (process_entry (records bank) row amt v)"
    by (rule step)
  from Cons.IH [OF rest this] show ?case by simp
qed

text \<open>What one pass of the loop body appends.\<close>

lemma process_entry_cases:
  obtains
    (unmatched) d where "bank_match bank (ChequeDDNo_str row) = []"
      "d = to_dict row ''Not Found in Bank'' (CText '''') (CText '''')"
      "process_entry bank row amt v =
         v\<lparr>all_entries_v := all_entries_v v @ [d],
           unmatched_entries := unmatched_entries v @ [d]\<rparr>"
  | (matched) idx t rest d where "bank_match bank (ChequeDDNo_str row) = (idx, t) # rest"
      "flt (fabs (fsub (amount t) amt)) (Fin 1)"
      "d = to_dict row ''Matched'' (CFloat (amount t)) (CInt 0)"
      "process_entry bank row amt v =
         v\<lparr>bank_matched := insert idx (bank_matched v),
           all_entries_v := all_entries_v v @ [d],
           matched_entries := matched_entries v @ [d]\<rparr>"
  | (mismatch) idx t rest d adj where "bank_match bank (ChequeDDNo_str row) = (idx, t) # rest"
      "\<not> flt (fabs (fsub (amount t) amt)) (Fin 1)"
      "d = to_dict row ''Amount Mismatch'' (CFloat (amount t)) (CFloat (fsub (amount t) amt))"
      "adj = d\<lparr>Amount := CFloat (fsub (amount t) amt), Status := ''Adjustment Entry'',
                Remarks := Adjustment_for (ChequeDDNo_str row) (amount t) amt
                             (fsub (amount t) amt)\<rparr>"
      "process_entry bank row amt v =
         v\<lparr>bank_matched := insert idx (bank_matched v),
           all_entries_v := all_entries_v v @ [d, adj],
           adjusted_entries := adjusted_entries v @ [d, adj]\<rparr>"
proof (cases "bank_match bank (ChequeDDNo_str row)")
  case Nil
  then show ?thesis by (intro unmatched) (simp_all add: process_entry_def Let_def)
next
  case (Cons p rest)
  obtain idx t where p: "p = (idx, t)" by (cases p)
  show ?thesis
  proof (cases "flt (fabs (fsub (amount t) amt)) (Fin 1)")
    case True
    with Cons p show ?thesis by (intro matched) (simp_all add: process_entry_def Let_def)
  next
    case False
    with Cons p show ?thesis by (intro mismatch) (simp_all add: process_entry_def Let_def)
  qed
qed

lemma report_inv_step:
  assumes "report_inv es v"
  shows "report_inv (es @ [row]) (process_entry bank row amt v)"
proof (cases rule: process_entry_cases [where bank = bank and row = row and amt = amt and v = v])
  case (unmatched d)
  with assms show ?thesis by (simp add: report_inv_def primary_def)
next
  case (matched idx t rest d)
  with assms show ?thesis by (simp add: report_inv_def primary_def)
next
  case (mismatch idx t rest d adj)
  with assms show ?thesis by (simp add: report_inv_def primary_def)
qed

lemma status_count:
  assumes "\<forall>d \<in> set ds.
        Status d = ''Matched'' \<or> Status d = ''Amount Mismatch'' \<or>
        Status d = ''Not Found in Bank'' \<or> Status d = ''Adjustment Entry''"
  shows "length (filter (\<lambda>d. Status d = ''Matched'') ds)
       + length (filter (\<lambda>d. Status d = ''Amount Mismatch'') ds)
       + length (filter (\<lambda>d. Status d = ''Not Found in Bank'') ds)
       = length (filter primary ds)"
  using assms by (induction ds) (auto simp: primary_def)

lemma reconcile_report_inv:
  assumes "reconcile self = Inr c"
  shows "\<exists>v. report_inv (data_entry_df self) v \<and> all_entries c = all_entries_v v
           \<and> matched c = matched_entries v \<and> adjusted c = adjusted_entries v
           \<and> unmatched c = unmatched_entries v"
proof -
  let ?v0 = "\<lparr>all_entries_v = [], matched_entries = [], adjusted_entries = [],
              unmatched_entries = [], bank_matched = {}\<rparr>"
  from assms obtain v where v: "reconcile_loop (bank_df self) (data_entry_df self) ?v0 = Inr v"
    and c: "all_entries c = all_entries_v v" "matched c = matched_entries v"
      "adjusted c = adjusted_entries v" "unmatched c = unmatched_entries v"
    by (auto simp: reconcile_def split: sum.splits)
  have "report_inv [] ?v0" by (simp add: report_inv_def)
  with v have "report_inv ([] @ data_entry_df self) v"
    by (rule reconcile_loop_invariant) (rule report_inv_step)
  with c show ?thesis by auto
qed

lemma reconcile_loop_returns:
  "(\<exists>v'. reconcile_loop bank rs v = Inr v') \<longleftrightarrow>
     (rs = [] \<or> (''journal_number'' \<in> set (columns bank)
        \<and> (\<forall>r \<in> set rs. \<exists>a. float_of_cell (Amount r) = Inr a)))"
proof (induction rs arbitrary: v)
  case Nil
  then show ?case by simp
next
  case (Cons row rs)
  show ?case
  proof (cases "float_of_cell (Amount row)")
    case (Inl e)
    then show ?thesis by auto
  next
    case (Inr amt)
    show ?thesis
    proof (cases "''journal_number'' \<in> set (columns bank)")
      case True
      with Inr Cons.IH [of "process_entry (records bank) row amt v"] show ?thesis
        by (auto simp: journal_number_column_def)
    next
      case False
      with Inr show ?thesis by (auto simp: journal_number_column_def)
    qed
  qed
qed

text \<open>
  Claim C1. When \<^verbatim>\<open>reconcile\<close> returns, the rows of \<^verbatim>\<open>all_entries\<close> other than the
  adjustment rows are the filtered ledger entries, one row each and in order; each of them
  has exactly one of the statuses \<^verbatim>\<open>Matched\<close>, \<^verbatim>\<open>Amount Mismatch\<close> and
  \<^verbatim>\<open>Not Found in Bank\<close>; \<^verbatim>\<open>matched\<close>, \<^verbatim>\<open>adjusted\<close> and \<^verbatim>\<open>unmatched\<close> hold the rows of
  the respective status; and \<^verbatim>\<open>len(matched)\<close> plus the number of \<^verbatim>\<open>Amount Mismatch\<close> rows of
  \<^verbatim>\<open>adjusted\<close> plus \<^verbatim>\<open>len(unmatched)\<close> is the number of filtered entries. And
  \<^verbatim>\<open>reconcile\<close> does return, unless an amount of a filtered entry cannot be converted to
  a float or the statement frame has no \<^verbatim>\<open>journal_number\<close> column.
\<close>

theorem reconcile_partition:
  "(reconcile self = Inr c \<longrightarrow>
      map entry_of (filter primary (all_entries c)) = data_entry_df self
    \<and> (\<forall>d \<in> set (filter primary (all_entries c)).
          Status d = ''Matched'' \<or> Status d = ''Amount Mismatch'' \<or>
          Status d = ''Not Found in Bank'')
    \<and> matched c = filter (\<lambda>d. Status d = ''Matched'') (all_entries c)
    \<and> adjusted c =
        filter (\<lambda>d. Status d = ''Amount Mismatch'' \<or> Status d = ''Adjustment Entry'')
          (all_entries c)
    \<and> unmatched c = filter (\<lambda>d. Status d = ''Not Found in Bank'') (all_entries c)
    \<and> length (matched c) + mismatches_count (adjusted c) + length (unmatched c)
        = length (data_entry_df self))
   \<and> ((\<exists>c'. reconcile self = Inr c') \<longleftrightarrow>
        (data_entry_df self = [] \<or>
         (''journal_number'' \<in> set (columns (bank_df self))
          \<and> (\<forall>r \<in> set (data_entry_df self). \<exists>a. float_of_cell (Amount r) = Inr a))))"
proof (intro conjI impI)
  assume r: "reconcile self = Inr c"
  from reconcile_report_inv [OF r] obtain v where inv: "report_inv (data_entry_df self) v"
    and c: "all_entries c = all_entries_v v" "matched c = matched_entries v"
      "adjusted c = adjusted_entries v" "unmatched c = unmatched_entries v"
    by blast
  from inv c show e: "map entry_of (filter primary (all_entries c)) = data_entry_df self"
    by (simp add: report_inv_def)
  from inv c have st: "\<forall>d \<in> set (all_entries c).
        Status d = ''Matched'' \<or> Status d = ''Amount Mismatch'' \<or>
        Status d = ''Not Found in Bank'' \<or> Status d = ''Adjustment Entry''"
    by (simp add: report_inv_def)
  then show "\<forall>d \<in> set (filter primary (all_entries c)).
          Status d = ''Matched'' \<or> Status d = ''Amount Mismatch'' \<or>
          Status d = ''Not Found in Bank''"
    by (auto simp: primary_def)
  from inv c show m: "matched c = filter (\<lambda>d. Status d = ''Matched'') (all_entries c)"
    and a: "adjusted c =
        filter (\<lambda>d. Status d = ''Amount Mismatch'' \<or> Status d = ''Adjustment Entry'')
          (all_entries c)"
    and u: "unmatched c = filter (\<lambda>d. Status d = ''Not Found in Bank'') (all_entries c)"
    by (simp_all add: report_inv_def)
  have "mismatches_count (adjusted c)
      = length (filter (\<lambda>d. Status d = ''Amount Mismatch'') (adjusted c))"
    by (simp add: mismatches_count_def)
  also have "\<dots> = length (filter (\<lambda>d. Status d = ''Amount Mismatch'') (all_entries c))"
    unfolding a filter_filter by (rule arg_cong [where f = length], rule filter_cong) auto
  finally have mc: "mismatches_count (adjusted c)
      = length (filter (\<lambda>d. Status d = ''Amount Mismatch'') (all_entries c))" .
  have "length (data_entry_df self) = length (filter primary (all_entries c))"
    using e by (metis length_map)
  with status_count [OF st] mc m u
  show "length (matched c) + mismatches_count (adjusted c) + length (unmatched c)
        = length (data_entry_df self)"
    by simp
next
  let ?v0 = "\<lparr>all_entries_v = [], matched_entries = [], adjusted_entries = [],
              unmatched_entries = [], bank_matched = {}\<rparr>"
  have "(\<exists>c'. reconcile self = Inr c')
      \<longleftrightarrow> (\<exists>v'. reconcile_loop (bank_df self) (data_entry_df self) ?v0 = Inr v')"
    by (auto simp: reconcile_def split: sum.splits)
  then show "(\<exists>c'. reconcile self = Inr c') \<longleftrightarrow>
        (data_entry_df self = [] \<or>
         (''journal_number'' \<in> set (columns (bank_df self))
          \<and> (\<forall>r \<in> set (data_entry_df self). \<exists>a. float_of_cell (Amount r) = Inr a)))"
    by (simp only: reconcile_loop_returns)
qed

section \<open>The matching rule holds of every row\<close>

lemma filter_enumerate_Nil:
  "filter (\<lambda>(i, t). P t) (enumerate n xs) = [] \<longleftrightarrow> (\<forall>t \<in> set xs. \<not> P t)"
  by (induction xs arbitrary: n) auto

lemma filter_enumerate_Cons:
  assumes "filter (\<lambda>(i, t). P t) (enumerate n xs) = (idx, t) # rest"
  shows "n \<le> idx \<and> idx - n < length xs \<and> xs ! (idx - n) = t \<and> P t
         \<and> (\<forall>k < idx - n. \<not> P (xs ! k))"
  using assms
proof (induction xs arbitrary: n)
  case Nil
  then show ?case by simp
next
  case (Cons x xs)
  show ?case
  proof (cases "P x")
    case True
    with Cons.prems show ?thesis by simp
  next
    case False
    with Cons.prems have "filter (\<lambda>(i, t). P t) (enumerate (Suc n) xs) = (idx, t) # rest"
      by simp
    from Cons.IH [OF this]
    have ih: "Suc n \<le> idx" "idx - Suc n < length xs" "xs ! (idx - Suc n) = t" "P t"
      "\<forall>k < idx - Suc n. \<not> P (xs ! k)"
      by auto
    from ih(1) have eq: "idx - n = Suc (idx - Suc n)" by simp
    have "\<forall>k < idx - n. \<not> P ((x # xs) ! k)"
    proof (intro allI impI)
      fix k assume "k < idx - n"
      then show "\<not> P ((x # xs) ! k)"
        using False ih(5) eq by (cases k) auto
    qed
    with ih eq show ?thesis by simp
  qed
qed

lemma bank_match_Nil:
  "bank_match bank journal = [] \<longleftrightarrow> (\<forall>t \<in> set bank. journal_number t \<noteq> journal)"
  unfolding bank_match_def by (rule filter_enumerate_Nil)

lemma bank_match_Cons:
  assumes "bank_match bank journal = (idx, t) # rest"
  shows "idx < length bank" "bank ! idx = t" "journal_number t = journal"
    "\<forall>k < idx. journal_number (bank ! k) \<noteq> journal"
  using filter_enumerate_Cons [OF assms [unfolded bank_match_def]] by simp_all

lemma consumed_snoc_unmatched:
  assumes "bank_match bank (ChequeDDNo_str row) = []"
  shows "consumed bank (es @ [row]) i = consumed bank es i"
proof -
  from assms have "\<forall>t \<in> set bank. journal_number t \<noteq> ChequeDDNo_str row"
    by (simp add: bank_match_Nil)
  then have "i < length bank \<Longrightarrow> journal_number (bank ! i) \<noteq> ChequeDDNo_str row"
    by (metis nth_mem)
  then show ?thesis by (auto simp: consumed_def)
qed

lemma consumed_snoc_matched:
  assumes "bank_match bank (ChequeDDNo_str row) = (idx, t) # rest"
  shows "consumed bank (es @ [row]) i \<longleftrightarrow> i = idx \<or> consumed bank es i"
proof -
  note bm = bank_match_Cons [OF assms]
  have first: "i = idx"
    if "i < length bank" "journal_number (bank ! i) = ChequeDDNo_str row"
      "\<forall>k < i. journal_number (bank ! k) \<noteq> journal_number (bank ! i)"
  proof (rule ccontr)
    assume "i \<noteq> idx"
    then consider "i < idx" | "idx < i" by linarith
    then show False
    proof cases
      case 1
      with bm(4) that(2) show False by simp
    next
      case 2
      with that(2,3) bm(2,3) show False by auto
    qed
  qed
  have idx: "consumed bank (es @ [row]) idx"
    using bm by (auto simp: consumed_def)
  show ?thesis
  proof
    assume c: "consumed bank (es @ [row]) i"
    show "i = idx \<or> consumed bank es i"
    proof (cases "consumed bank es i")
      case True
      then show ?thesis by simp
    next
      case False
      with c have "i < length bank" "journal_number (bank ! i) = ChequeDDNo_str row"
        "\<forall>k < i. journal_number (bank ! k) \<noteq> journal_number (bank ! i)"
        by (auto simp: consumed_def)
      then have "i = idx" by (rule first)
      then show ?thesis by simp
    qed
  next
    assume "i = idx \<or> consumed bank es i"
    then show "consumed bank (es @ [row]) i"
      using idx by (auto simp: consumed_def)
  qed
qed

lemma followed_append:
  assumes "\<exists>pre post. xs = pre @ d # a # post"
  shows "\<exists>pre post. xs @ ys = pre @ d # a # post"
proof -
  from assms obtain pre post where "xs = pre @ d # a # post" by blast
  then have "xs @ ys = pre @ d # a # (post @ ys)" by simp
  then show ?thesis by blast
qed

lemma followed_last: "\<exists>pre post. xs @ [d, a] = pre @ d # a # post"
  by (rule exI [of _ xs], rule exI [of _ "[]"]) simp

lemma to_dict_fields [simp]:
  "Amount (to_dict row s b df) = Amount row"
  "ChequeDDNo (to_dict row s b df) = ChequeDDNo row"
  "ChequeDDNo_str (to_dict row s b df) = ChequeDDNo_str row"
  "Bank_Amount (to_dict row s b df) = b"
  "Difference (to_dict row s b df) = df"
  by (simp_all add: to_dict_def)

text \<open>The invariant restricted to one list of rows, so that each part is proved alone.\<close>

lemma rows_inv_step:
  assumes inv: "rows_inv bank es v" and amt: "float_of_cell (Amount row) = Inr amt"
  shows "rows_inv bank (es @ [row]) (process_entry bank row amt v)"
proof -
  let ?v' = "process_entry bank row amt v"
  from inv have old1: "\<And>d. d \<in> set (all_entries_v v) \<Longrightarrow> primary d \<Longrightarrow>
        entry_of d \<in> set es \<and>
        (\<exists>amt. float_of_cell (Amount d) = Inr amt \<and> d = classify bank (entry_of d) amt)"
    and old2: "\<And>d. d \<in> set (all_entries_v v) \<Longrightarrow> Status d = ''Amount Mismatch'' \<Longrightarrow>
        (\<exists>idx t rest amt.
           bank_match bank (ChequeDDNo_str d) = (idx, t) # rest
           \<and> float_of_cell (Amount d) = Inr amt
           \<and> (\<exists>pre post. all_entries_v v = pre @ d # adjustment_row d (amount t) amt # post)
           \<and> (\<exists>pre post. adjusted_entries v = pre @ d # adjustment_row d (amount t) amt # post))"
    and old3: "\<And>d. d \<in> set (all_entries_v v) \<Longrightarrow> \<exists>e \<in> set es. ChequeDDNo d = ChequeDDNo e"
    and old4: "bank_matched v = {i. consumed bank es i}"
    unfolding rows_inv_def by blast+
  \<comment> \<open>what the step appends: the row \<open>d\<close> of the rule, and for a mismatch its adjustment\<close>
  obtain new where all': "all_entries_v ?v' = all_entries_v v @ new"
    and adj': "adjusted_entries ?v' = adjusted_entries v
               \<or> (adjusted_entries ?v' = adjusted_entries v @ new)"
    and new: "new = [classify bank row amt]
               \<and> Status (classify bank row amt) \<noteq> ''Amount Mismatch''
             \<or> (\<exists>idx t rest. bank_match bank (ChequeDDNo_str row) = (idx, t) # rest
                  \<and> Status (classify bank row amt) = ''Amount Mismatch''
                  \<and> new = [classify bank row amt,
                            adjustment_row (classify bank row amt) (amount t) amt]
                  \<and> adjusted_entries ?v' = adjusted_entries v @ new)"
    and bm': "bank_matched ?v' = {i. consumed bank (es @ [row]) i}"
  proof (cases rule: process_entry_cases [where bank = bank and row = row and amt = amt and v = v])
    case (unmatched d)
    have "bank_matched ?v' = {i. consumed bank (es @ [row]) i}"
      using unmatched old4 by (simp add: consumed_snoc_unmatched)
    with unmatched show ?thesis
      by (intro that [of "[d]"]) (simp_all add: classify_def)
  next
    case (matched idx t rest d)
    have "bank_matched ?v' = {i. consumed bank (es @ [row]) i}"
      using matched old4 by (auto simp: consumed_snoc_matched)
    with matched show ?thesis
      by (intro that [of "[d]"]) (simp_all add: classify_def)
  next
    case (mismatch idx t rest d adj)
    have "bank_matched ?v' = {i. consumed bank (es @ [row]) i}"
      using mismatch old4 by (auto simp: consumed_snoc_matched)
    moreover have "adj = adjustment_row d (amount t) amt"
      using mismatch by (simp add: adjustment_row_def)
    ultimately show ?thesis using mismatch
      by (intro that [of "[d, adj]"]) (simp_all add: classify_def)
  qed
  let ?d = "classify bank row amt"
  have d_entry: "entry_of ?d = row" and d_amount: "Amount ?d = Amount row"
    and d_key: "ChequeDDNo_str ?d = ChequeDDNo_str row" and d_ref: "ChequeDDNo ?d = ChequeDDNo row"
    by (simp_all add: classify_def split: list.split)
  have adj_status: "Status (adjustment_row d b a) = ''Adjustment Entry''"
    and adj_ref: "ChequeDDNo (adjustment_row d b a) = ChequeDDNo d" for d b a
    by (simp_all add: adjustment_row_def)
  have new_set: "set new \<subseteq> {?d} \<union> {d'. \<not> primary d' \<and> ChequeDDNo d' = ChequeDDNo row}"
    using new by (auto simp: primary_def adj_status adj_ref d_ref)
  have new1: "entry_of d \<in> set (es @ [row]) \<and>
        (\<exists>amt. float_of_cell (Amount d) = Inr amt \<and> d = classify bank (entry_of d) amt)"
    if d: "d \<in> set (all_entries_v ?v')" and p: "primary d" for d
  proof (cases "d \<in> set (all_entries_v v)")
    case True
    from old1 [OF True p] show ?thesis by auto
  next
    case False
    with d all' new_set p have "d = ?d" by auto
    then show ?thesis using amt d_entry d_amount by auto
  qed
  have new2: "\<exists>idx t rest amt.
           bank_match bank (ChequeDDNo_str d) = (idx, t) # rest
           \<and> float_of_cell (Amount d) = Inr amt
           \<and> (\<exists>pre post. all_entries_v ?v' = pre @ d # adjustment_row d (amount t) amt # post)
           \<and> (\<exists>pre post. adjusted_entries ?v' = pre @ d # adjustment_row d (amount t) amt # post)"
    if d: "d \<in> set (all_entries_v ?v')" and s: "Status d = ''Amount Mismatch''" for d
  proof (cases "d \<in> set (all_entries_v v)")
    case True
    from old2 [OF True s] obtain idx t rest a where
      o: "bank_match bank (ChequeDDNo_str d) = (idx, t) # rest"
        "float_of_cell (Amount d) = Inr a"
        "\<exists>pre post. all_entries_v v = pre @ d # adjustment_row d (amount t) a # post"
        "\<exists>pre post. adjusted_entries v = pre @ d # adjustment_row d (amount t) a # post"
      by blast
    have "\<exists>pre post. all_entries_v ?v' = pre @ d # adjustment_row d (amount t) a # post"
      unfolding all' using o(3) by (rule followed_append)
    moreover have "\<exists>pre post. adjusted_entries ?v' = pre @ d # adjustment_row d (amount t) a # post"
    proof (rule disjE [OF adj'])
      assume "adjusted_entries ?v' = adjusted_entries v"
      with o(4) show ?thesis by simp
    next
      assume "adjusted_entries ?v' = adjusted_entries v @ new"
      with followed_append [OF o(4), of new] show ?thesis by simp
    qed
    ultimately show ?thesis using o(1,2) by blast
  next
    case False
    with d all' have "d \<in> set new" by simp
    with new s have dd: "d = ?d"
      by (auto simp: adj_status)
    with new s obtain idx t rest where
      n: "bank_match bank (ChequeDDNo_str row) = (idx, t) # rest"
        "new = [?d, adjustment_row ?d (amount t) amt]"
        "adjusted_entries ?v' = adjusted_entries v @ new"
      by auto
    have "\<exists>pre post. all_entries_v ?v' = pre @ ?d # adjustment_row ?d (amount t) amt # post"
      unfolding all' n(2) by (rule followed_last)
    moreover have "\<exists>pre post. adjusted_entries ?v' = pre @ ?d # adjustment_row ?d (amount t) amt # post"
      unfolding n(3) n(2) by (rule followed_last)
    ultimately show ?thesis using n(1) amt d_key d_amount unfolding dd by auto
  qed
  have new3: "\<exists>e \<in> set (es @ [row]). ChequeDDNo d = ChequeDDNo e"
    if d: "d \<in> set (all_entries_v ?v')" for d
  proof (cases "d \<in> set (all_entries_v v)")
    case True
    from old3 [OF True] show ?thesis by auto
  next
    case False
    with d all' new_set have "ChequeDDNo d = ChequeDDNo row" using d_ref by auto
    then show ?thesis by simp
  qed
  show ?thesis unfolding rows_inv_def
    using new1 new2 new3 bm' by blast
qed

lemma reconcile_rows_inv:
  assumes "reconcile self = Inr c"
  shows "\<exists>v. rows_inv (records (bank_df self)) (data_entry_df self) v
           \<and> all_entries c = all_entries_v v \<and> adjusted c = adjusted_entries v
           \<and> unregistered c =
                map (\<lambda>(i, t). unregistered_entry t)
                  (filter (\<lambda>(i, t). i \<notin> bank_matched v)
                     (enumerate 0 (records (bank_df self))))"
proof -
  let ?v0 = "\<lparr>all_entries_v = [], matched_entries = [], adjusted_entries = [],
              unmatched_entries = [], bank_matched = {}\<rparr>"
  from assms obtain v where v: "reconcile_loop (bank_df self) (data_entry_df self) ?v0 = Inr v"
    and c: "all_entries c = all_entries_v v" "adjusted c = adjusted_entries v"
      "unregistered c =
                map (\<lambda>(i, t). unregistered_entry t)
                  (filter (\<lambda>(i, t). i \<notin> bank_matched v)
                     (enumerate 0 (records (bank_df self))))"
    by (auto simp: reconcile_def split: sum.splits)
  have "rows_inv (records (bank_df self)) [] ?v0"
    by (simp add: rows_inv_def consumed_def)
  with v have "rows_inv (records (bank_df self)) ([] @ data_entry_df self) v"
    by (rule reconcile_loop_invariant) (rule rows_inv_step)
  with c show ?thesis by auto
qed

section \<open>Tolerance and adjustments\<close>

lemma fge_not_flt: "fge a b \<Longrightarrow> \<not> flt a b"
  by (simp add: fge_def)

lemma entry_of_key [simp]: "ChequeDDNo_str (entry_of d) = ChequeDDNo_str d"
  by (simp add: entry_of_def)

text \<open>The fields of a row that stands for an entry whose key is in the statement.\<close>

lemma matched_row_fields:
  assumes "reconcile self = Inr c" and "d \<in> set (all_entries c)" and "primary d"
    and "bank_match (records (bank_df self)) (ChequeDDNo_str d) = (idx, t) # rest"
  shows "\<exists>amt. float_of_cell (Amount d) = Inr amt
    \<and> (flt (fabs (fsub (amount t) amt)) (Fin 1) \<longrightarrow>
          Status d = ''Matched'' \<and> Bank_Amount d = CFloat (amount t) \<and> Difference d = CInt 0)
    \<and> (\<not> flt (fabs (fsub (amount t) amt)) (Fin 1) \<longrightarrow>
          Status d = ''Amount Mismatch'' \<and> Bank_Amount d = CFloat (amount t)
          \<and> Difference d = CFloat (fsub (amount t) amt))"
proof -
  from reconcile_rows_inv [OF assms(1)] obtain v where
    inv: "rows_inv (records (bank_df self)) (data_entry_df self) v"
    and all: "all_entries c = all_entries_v v"
    by blast
  from inv assms(2,3) all obtain amt where amt: "float_of_cell (Amount d) = Inr amt"
    and d: "d = classify (records (bank_df self)) (entry_of d) amt"
    unfolding rows_inv_def by auto
  let ?m = "to_dict (entry_of d) ''Matched'' (CFloat (amount t)) (CInt 0)"
  let ?mm = "to_dict (entry_of d) ''Amount Mismatch'' (CFloat (amount t))
            (CFloat (fsub (amount t) amt))"
  have m: "Status d = ''Matched'' \<and> Bank_Amount d = CFloat (amount t) \<and> Difference d = CInt 0"
    if "flt (fabs (fsub (amount t) amt)) (Fin 1)"
  proof -
    from that assms(4) have "classify (records (bank_df self)) (entry_of d) amt = ?m"
      by (simp add: classify_def)
    with d have "d = ?m" by simp
    moreover have "Status ?m = ''Matched''" "Bank_Amount ?m = CFloat (amount t)"
      "Difference ?m = CInt 0" by simp_all
    ultimately show ?thesis by metis
  qed
  have mm: "Status d = ''Amount Mismatch'' \<and> Bank_Amount d = CFloat (amount t)
          \<and> Difference d = CFloat (fsub (amount t) amt)"
    if "\<not> flt (fabs (fsub (amount t) amt)) (Fin 1)"
  proof -
    from that assms(4) have "classify (records (bank_df self)) (entry_of d) amt = ?mm"
      by (simp add: classify_def)
    with d have "d = ?mm" by simp
    moreover have "Status ?mm = ''Amount Mismatch''" "Bank_Amount ?mm = CFloat (amount t)"
      "Difference ?mm = CFloat (fsub (amount t) amt)" by simp_all
    ultimately show ?thesis by metis
  qed
  from amt m mm show ?thesis by blast
qed

text \<open>
  Claim C2. Take a row of the report that stands for a ledger entry whose key is in the
  statement, \<open>t\<close> being the first transaction with that key. With \<open>amt\<close> the entry's amount
  as a float: if \<^verbatim>\<open>abs(bank_amount - amount) < 1.0\<close> the row is \<^verbatim>\<open>Matched\<close>, with the bank
  amount and a difference of \<open>0\<close>; if \<^verbatim>\<open>abs(bank_amount - amount) >= 1.0\<close>, and so when it
  is exactly \<open>1.0\<close>, the row is \<^verbatim>\<open>Amount Mismatch\<close>. The subtraction is the one of Python
  floats, as the code computes it.
\<close>

theorem tolerance_boundary:
  assumes "reconcile self = Inr c" and "d \<in> set (all_entries c)" and "primary d"
    and "bank_match (records (bank_df self)) (ChequeDDNo_str d) = (idx, t) # rest"
  shows "\<exists>amt. float_of_cell (Amount d) = Inr amt
     \<and> (flt (fabs (fsub (amount t) amt)) (Fin 1) \<longrightarrow>
          Status d = ''Matched'' \<and> Bank_Amount d = CFloat (amount t) \<and> Difference d = CInt 0)
     \<and> (fge (fabs (fsub (amount t) amt)) (Fin 1) \<longrightarrow> Status d = ''Amount Mismatch'')
     \<and> (fabs (fsub (amount t) amt) = Fin 1 \<longrightarrow> Status d = ''Amount Mismatch'')
     \<and> (Status d = ''Matched'' \<longleftrightarrow> flt (fabs (fsub (amount t) amt)) (Fin 1))"
proof -
  from matched_row_fields [OF assms] obtain amt where amt: "float_of_cell (Amount d) = Inr amt"
    and m: "flt (fabs (fsub (amount t) amt)) (Fin 1) \<Longrightarrow>
          Status d = ''Matched'' \<and> Bank_Amount d = CFloat (amount t) \<and> Difference d = CInt 0"
    and mm: "\<not> flt (fabs (fsub (amount t) amt)) (Fin 1) \<Longrightarrow>
          Status d = ''Amount Mismatch'' \<and> Bank_Amount d = CFloat (amount t)
          \<and> Difference d = CFloat (fsub (amount t) amt)"
    by blast
  have "fabs (fsub (amount t) amt) = Fin 1 \<Longrightarrow> \<not> flt (fabs (fsub (amount t) amt)) (Fin 1)"
    by simp
  with amt m mm show ?thesis
    by (cases "flt (fabs (fsub (amount t) amt)) (Fin 1)") (auto dest: fge_not_flt)
qed

lemma exact_difference_sum:
  assumes "exact_difference bank_amount amt"
  shows "fadd amt (fsub bank_amount amt) = bank_amount"
proof -
  from assms obtain b a where ba: "bank_amount = Fin b" "amt = Fin a"
    and r: "round_double b = Fin b" and s: "fsub (Fin b) (Fin a) = Fin (b - a)"
    by (auto simp: exact_difference_def split: pyfloat.splits)
  have "fadd (Fin a) (Fin (b - a)) = round_double b" by simp
  with ba r s show ?thesis by simp
qed

text \<open>
  Claim C3, as amended. A row \<open>d\<close> of status \<^verbatim>\<open>Amount Mismatch\<close> is followed at once, in
  \<^verbatim>\<open>all_entries\<close> and in \<^verbatim>\<open>adjusted\<close>, by its adjustment row: a copy of \<open>d\<close> whose
  \<^verbatim>\<open>Amount\<close> is the float difference \<^verbatim>\<open>bank_amount - amount\<close> and whose \<^verbatim>\<open>Status\<close> is
  \<^verbatim>\<open>Adjustment Entry\<close>. The entry amount plus the adjustment amount is the bank amount
  whenever both amounts are finite and the subtraction needs no rounding; it need not be
  otherwise.
\<close>

theorem adjustment_follows_mismatch:
  assumes "reconcile self = Inr c" and "d \<in> set (all_entries c)"
    and "Status d = ''Amount Mismatch''"
  shows "\<exists>idx t rest amt adj.
      bank_match (records (bank_df self)) (ChequeDDNo_str d) = (idx, t) # rest
    \<and> float_of_cell (Amount d) = Inr amt
    \<and> Bank_Amount d = CFloat (amount t)
    \<and> Difference d = CFloat (fsub (amount t) amt)
    \<and> adj = adjustment_row d (amount t) amt
    \<and> Amount adj = CFloat (fsub (amount t) amt)
    \<and> Status adj = ''Adjustment Entry''
    \<and> (\<exists>pre post. all_entries c = pre @ d # adj # post)
    \<and> (\<exists>pre post. adjusted c = pre @ d # adj # post)
    \<and> (exact_difference (amount t) amt \<longrightarrow> fadd amt (fsub (amount t) amt) = amount t)"
proof -
  from reconcile_rows_inv [OF assms(1)] obtain v where
    inv: "rows_inv (records (bank_df self)) (data_entry_df self) v"
    and all: "all_entries c = all_entries_v v" and adj: "adjusted c = adjusted_entries v"
    by blast
  let ?bank = "records (bank_df self)"
  from inv have "\<forall>d \<in> set (all_entries_v v). Status d = ''Amount Mismatch'' \<longrightarrow>
        (\<exists>idx t rest amt.
           bank_match ?bank (ChequeDDNo_str d) = (idx, t) # rest
           \<and> float_of_cell (Amount d) = Inr amt
           \<and> (\<exists>pre post. all_entries_v v = pre @ d # adjustment_row d (amount t) amt # post)
           \<and> (\<exists>pre post. adjusted_entries v = pre @ d # adjustment_row d (amount t) amt # post))"
    unfolding rows_inv_def by blast
  moreover have "d \<in> set (all_entries_v v)" using assms(2) all by simp
  ultimately have "\<exists>idx t rest amt.
           bank_match ?bank (ChequeDDNo_str d) = (idx, t) # rest
           \<and> float_of_cell (Amount d) = Inr amt
           \<and> (\<exists>pre post. all_entries_v v = pre @ d # adjustment_row d (amount t) amt # post)
           \<and> (\<exists>pre post. adjusted_entries v = pre @ d # adjustment_row d (amount t) amt # post)"
    using assms(3) by blast
  then obtain idx t rest amt where
    bm: "bank_match ?bank (ChequeDDNo_str d) = (idx, t) # rest"
    and amt: "float_of_cell (Amount d) = Inr amt"
    and f1: "\<exists>pre post. all_entries c = pre @ d # adjustment_row d (amount t) amt # post"
    and f2: "\<exists>pre post. adjusted c = pre @ d # adjustment_row d (amount t) amt # post"
    unfolding all adj by blast
  have p: "primary d" using assms(3) by (simp add: primary_def)
  from matched_row_fields [OF assms(1,2) p bm] obtain amt'
    where amt': "float_of_cell (Amount d) = Inr amt'"
    and m: "flt (fabs (fsub (amount t) amt')) (Fin 1) \<Longrightarrow>
          Status d = ''Matched'' \<and> Bank_Amount d = CFloat (amount t) \<and> Difference d = CInt 0"
    and mm: "\<not> flt (fabs (fsub (amount t) amt')) (Fin 1) \<Longrightarrow>
          Status d = ''Amount Mismatch'' \<and> Bank_Amount d = CFloat (amount t)
          \<and> Difference d = CFloat (fsub (amount t) amt')"
    by blast
  from amt amt' have eq: "amt' = amt" by simp
  from m assms(3) have "\<not> flt (fabs (fsub (amount t) amt)) (Fin 1)"
    unfolding eq by auto
  with mm have fields: "Bank_Amount d = CFloat (amount t)"
    "Difference d = CFloat (fsub (amount t) amt)"
    unfolding eq by simp_all
  have a: "Amount (adjustment_row d (amount t) amt) = CFloat (fsub (amount t) amt)"
    "Status (adjustment_row d (amount t) amt) = ''Adjustment Entry''"
    by (simp_all add: adjustment_row_def)
  have e: "exact_difference (amount t) amt \<longrightarrow> fadd amt (fsub (amount t) amt) = amount t"
    by (simp add: exact_difference_sum)
  from bm amt fields a f1 f2 e show ?thesis by blast
qed

section \<open>Evaluating the worked example\<close>

lemma round_double_int:
  assumes "\<bar>n\<bar> < 2 ^ 53"
  shows "round_double (of_int n) = Fin (of_int n)"
proof (rule round_double_exact [where n = n and k = 0])
  show "rat_of_int n = rat_of_int n * pow2 0" by (simp add: pow2_def)
  have "\<bar>rat_of_int n\<bar> = rat_of_int \<bar>n\<bar>" by simp
  also have "\<dots> < rat_of_int (2 ^ 53)" using assms by (simp only: of_int_less_iff)
  also have "\<dots> < pow2 1024" by (simp add: pow2_def)
  finally show "\<bar>rat_of_int n\<bar> < pow2 1024" .
qed (use assms in simp_all)

lemma round_double_half:
  assumes "\<bar>n\<bar> < 2 ^ 53"
  shows "round_double (of_int n / 2) = Fin (of_int n / 2)"
proof (rule round_double_exact [where n = n and k = "- 1"])
  show "rat_of_int n / 2 = rat_of_int n * pow2 (- 1)" by (simp add: pow2_def)
  have "\<bar>rat_of_int n / 2\<bar> \<le> rat_of_int \<bar>n\<bar>" by simp
  also have "\<dots> < rat_of_int (2 ^ 53)" using assms by (simp only: of_int_less_iff)
  also have "\<dots> < pow2 1024" by (simp add: pow2_def)
  finally show "\<bar>rat_of_int n / 2\<bar> < pow2 1024" .
qed (use assms in simp_all)

lemma rd100: "round_double 100 = Fin 100" using round_double_int [of 100] by simp
lemma rd75: "round_double 75 = Fin 75" using round_double_int [of 75] by simp
lemma rd300: "round_double 300 = Fin 300" using round_double_int [of 300] by simp

lemmas text_defs = strip_def lstrip_def rstrip_def is_space_def replace_def upper_def
  upper_char_def is_digit_def
lemmas float_defs = float_of_str_def parse_sign_def parse_decimal_def parse_exponent_def
  nat_of_digits_def digit_val_def pow10_def

lemma pa100: "parse_amount (Some ''Nu. 100.00'') = Inr (Fin 100)"
  by (simp add: parse_amount_def text_defs float_defs rd100)

lemma pa75: "parse_amount (Some ''75'') = Inr (Fin 75)"
  by (simp add: parse_amount_def text_defs float_defs rd75)

lemma pa300: "parse_amount (Some ''300'') = Inr (Fin 300)"
  by (simp add: parse_amount_def text_defs float_defs rd300)

lemmas row_defs = parse_row_def cell_text_def truthy_def py_str_def str_row_def repr_cell_def
  repr_str_def repr_char_def exclusion_keywords_def fgt_def Let_def

lemma ex_row1:
  "parse_row [Some ''01/01'', None, Some ''pay'', Some '' JRN1 '', None, None, Some ''Nu. 100.00'']
     = Some \<lparr>date = ''01/01'', journal_number = ''JRN1'', description = ''pay'', amount = Fin 100\<rparr>"
  by (simp add: row_defs text_defs pa100)

lemma ex_row2:
  "parse_row [Some ''02/01'', None, Some ''Closing balance'', Some ''JRN2'', None, None, Some ''75'']
     = None"
  by (simp add: row_defs text_defs)

lemma ex_row3:
  "parse_row [Some ''02/01'', None, Some ''fee'', Some ''JRN3'', None, None, Some ''75'']
     = Some \<lparr>date = ''02/01'', journal_number = ''JRN3'', description = ''fee'', amount = Fin 75\<rparr>"
  by (simp add: row_defs text_defs pa75)

lemma ex_row4:
  "parse_row [Some ''03/01'', None, Some ''pay'', Some ''JRN1'', None, None, Some ''300'']
     = Some \<lparr>date = ''03/01'', journal_number = ''JRN1'', description = ''pay'', amount = Fin 300\<rparr>"
  by (simp add: row_defs text_defs pa300)

lemma ex_header:
  "is_header_row [Some ''Date'', None, Some ''Particulars'', Some ''Journal No'', None, None,
              Some ''Amount'']"
  by (simp add: is_header_row_def truthy_def py_str_def text_defs)

lemma example_parse: "parse_bank_pdf example_statement = Inr (DataFrame example_transactions)"
  by (simp add: parse_bank_pdf_def example_statement_def example_transactions_def
      parse_table_def ex_header List.map_filter_simps ex_row1 ex_row2 ex_row3 ex_row4)

lemma example_init: "BankReconciliation_init example_ledger example_statement = Inr example_state"
  by (simp add: BankReconciliation_init_def example_parse example_state_def example_ledger_def
      example_entries_def example_transactions_def DataFrame_def journal_number_column_def
      notna_def with_ChequeDDNo_str_def astype_str_def text_defs)

lemma rd0: "round_double 0 = Fin 0" by (simp add: round_double_def)
lemma rd200: "round_double 200 = Fin 200" using round_double_int [of 200] by simp
lemma rd9_2: "round_double (9 / 2) = Fin (9 / 2)" using round_double_half [of 9] by simp

lemma example_reconcile: "reconcile example_state = Inr example_report"
  by (simp add: reconcile_def example_state_def example_entries_def example_transactions_def
      DataFrame_def journal_number_column_def float_of_cell_def process_entry_def
      bank_match_def to_dict_def fsub_def rd0 rd200 rd9_2 unregistered_entry_def
      example_report_def example_matched_row_def example_unmatched_row_def
      example_mismatch_row_def example_adjustment_row_def Let_def)

theorem reconcile_partition_witness:
  "reconcile example_state = Inr example_report
   \<and> map entry_of (filter primary (all_entries example_report)) = example_entries
   \<and> length (matched example_report) + mismatches_count (adjusted example_report)
       + length (unmatched example_report) = 3"
proof -
  have len: "length example_entries = 3"
    and df: "data_entry_df example_state = example_entries"
    by (simp_all add: example_state_def example_entries_def)
  from reconcile_partition [of example_state example_report] example_reconcile
  have "map entry_of (filter primary (all_entries example_report)) = data_entry_df example_state"
    and "length (matched example_report) + mismatches_count (adjusted example_report)
       + length (unmatched example_report) = length (data_entry_df example_state)"
    by blast+
  with example_reconcile show ?thesis by (simp add: len df)
qed

section \<open>The edges of the matching rule, evaluated\<close>

lemma rd1: "round_double 1 = Fin 1" using round_double_int [of 1] by simp

lemmas reconcile_defs = reconcile_def DataFrame_def journal_number_column_def
  float_of_cell_def process_entry_def bank_match_def to_dict_def fsub_def
  unregistered_entry_def Let_def

lemma boundary_reconcile: "reconcile boundary_state = Inr boundary_report"
  by (simp add: reconcile_defs boundary_state_def boundary_entry_def boundary_txn_def
      boundary_report_def boundary_row_def adjustment_row_def rd1)

lemma boundary_match:
  "bank_match (records (bank_df boundary_state)) (ChequeDDNo_str boundary_row)
     = [(0, boundary_txn)]"
  by (simp add: boundary_state_def DataFrame_def bank_match_def boundary_row_def
      boundary_txn_def)

theorem tolerance_boundary_witness:
  "reconcile boundary_state = Inr boundary_report
   \<and> boundary_row \<in> set (all_entries boundary_report)
   \<and> primary boundary_row
   \<and> fabs (fsub (amount boundary_txn) (Fin 100)) = Fin 1
   \<and> Status boundary_row = ''Amount Mismatch''"
proof -
  have in_rows: "boundary_row \<in> set (all_entries boundary_report)"
    by (simp add: boundary_report_def)
  have prim: "primary boundary_row"
    by (simp add: primary_def boundary_row_def)
  have amt: "float_of_cell (Amount boundary_row) = Inr (Fin 100)"
    by (simp add: boundary_row_def float_of_cell_def)
  have one: "fabs (fsub (amount boundary_txn) (Fin 100)) = Fin 1"
    by (simp add: boundary_txn_def fsub_def rd1)
  from tolerance_boundary [OF boundary_reconcile in_rows prim boundary_match] amt one
  have "Status boundary_row = ''Amount Mismatch''" by auto
  with boundary_reconcile in_rows prim one show ?thesis by simp
qed

lemma rounding_reconcile: "reconcile rounding_state = Inr rounding_report"
proof -
  have d: "fadd (Fin (3602879701896397 / 36028797018963968)) (Fin (- 100))
     = Fin (- (3514918771674317 / 35184372088832))"
    using ex_diff by (simp add: fsub_def)
  show ?thesis
    by (simp add: reconcile_def DataFrame_def journal_number_column_def
      float_of_cell_def process_entry_def bank_match_def to_dict_def fsub_def
      unregistered_entry_def Let_def rounding_state_def rounding_entry_def rounding_txn_def
      rounding_report_def rounding_row_def rounding_adjustment_def d del: fadd.simps)
qed

theorem adjustment_sum_counterexample:
  "reconcile rounding_state = Inr rounding_report
   \<and> map Status (all_entries rounding_report) = [''Amount Mismatch'', ''Adjustment Entry'']
   \<and> map Amount (all_entries rounding_report)
       = [CFloat (Fin 100), CFloat (Fin (- (3514918771674317 / 35184372088832)))]
   \<and> map Bank_Amount (all_entries rounding_report)
       = [CFloat (Fin (3602879701896397 / 36028797018963968)),
          CFloat (Fin (3602879701896397 / 36028797018963968))]
   \<and> fadd (Fin 100) (Fin (- (3514918771674317 / 35184372088832)))
       = Fin (3518437208883 / 35184372088832)
   \<and> \<not> feq (fadd (Fin 100) (Fin (- (3514918771674317 / 35184372088832))))
            (Fin (3602879701896397 / 36028797018963968))"
proof -
  have "map Status (all_entries rounding_report) = [''Amount Mismatch'', ''Adjustment Entry'']"
    "map Amount (all_entries rounding_report)
       = [CFloat (Fin 100), CFloat (Fin (- (3514918771674317 / 35184372088832)))]"
    "map Bank_Amount (all_entries rounding_report)
       = [CFloat (Fin (3602879701896397 / 36028797018963968)),
          CFloat (Fin (3602879701896397 / 36028797018963968))]"
    by (simp_all add: rounding_report_def rounding_row_def rounding_adjustment_def)
  moreover have "\<not> feq (Fin (3518437208883 / 35184372088832))
            (Fin (3602879701896397 / 36028797018963968))"
    by (simp add: feq_def)
  ultimately show ?thesis using rounding_reconcile ex_sum by (simp only: simp_thms)
qed

lemma example_exact: "exact_difference (Fin 75) (Fin (141 / 2))"
  by (simp add: exact_difference_def rd75 fsub_def rd9_2)

theorem adjustment_follows_mismatch_witness:
  "reconcile example_state = Inr example_report
   \<and> example_mismatch_row \<in> set (all_entries example_report)
   \<and> Status example_mismatch_row = ''Amount Mismatch''
   \<and> (\<exists>pre post. all_entries example_report
         = pre @ example_mismatch_row # example_adjustment_row # post)
   \<and> exact_difference (Fin 75) (Fin (141 / 2))
   \<and> fadd (Fin (141 / 2)) (fsub (Fin 75) (Fin (141 / 2))) = Fin 75"
proof -
  have in_rows: "example_mismatch_row \<in> set (all_entries example_report)"
    by (simp add: example_report_def)
  have st: "Status example_mismatch_row = ''Amount Mismatch''"
    by (simp add: example_mismatch_row_def)
  have amt: "float_of_cell (Amount example_mismatch_row) = Inr (Fin (141 / 2))"
    by (simp add: example_mismatch_row_def float_of_cell_def)
  have bm: "bank_match (records (bank_df example_state)) (ChequeDDNo_str example_mismatch_row)
      = [(1, example_transactions ! 1)]"
    by (simp add: example_state_def DataFrame_def bank_match_def example_mismatch_row_def
        example_transactions_def)
  have t: "amount (example_transactions ! 1) = Fin 75"
    by (simp add: example_transactions_def)
  have adj: "adjustment_row example_mismatch_row (Fin 75) (Fin (141 / 2)) = example_adjustment_row"
    by (simp add: adjustment_row_def example_mismatch_row_def example_adjustment_row_def
        fsub_def rd9_2)
  from adjustment_follows_mismatch [OF example_reconcile in_rows st] bm amt
  have "(\<exists>pre post. all_entries example_report
           = pre @ example_mismatch_row
               # adjustment_row example_mismatch_row (amount (example_transactions ! 1))
                   (Fin (141 / 2)) # post)
      \<and> (exact_difference (amount (example_transactions ! 1)) (Fin (141 / 2)) \<longrightarrow>
           fadd (Fin (141 / 2)) (fsub (amount (example_transactions ! 1)) (Fin (141 / 2)))
             = amount (example_transactions ! 1))"
    by auto
  then have "\<exists>pre post. all_entries example_report
         = pre @ example_mismatch_row # example_adjustment_row # post"
    and "fadd (Fin (141 / 2)) (fsub (Fin 75) (Fin (141 / 2))) = Fin 75"
    unfolding t adj using example_exact by blast+
  with example_reconcile in_rows st example_exact show ?thesis by blast
qed

section \<open>Unregistered transactions\<close>

lemma unregistered_entry_fields:
  "map_of (unregistered_entry t) ''CustomerName'' = Some (CText ''UNREGISTERED'')"
  "map_of (unregistered_entry t) ''PaymentMode'' = Some (CText ''BANK TRANSFER'')"
  "map_of (unregistered_entry t) ''Bank'' = Some (CText ''Bank of Bhutan'')"
  "map_of (unregistered_entry t) ''Amount'' = Some (CFloat (amount t))"
  "map_of (unregistered_entry t) ''Bank_Amount'' = Some (CFloat (amount t))"
  "map_of (unregistered_entry t) ''ChequeDDNo'' = Some (CText (journal_number t))"
  by (simp_all add: unregistered_entry_def)

lemma enumerate_member: "(i, t) \<in> set (enumerate 0 xs) \<Longrightarrow> i < length xs \<and> t = xs ! i"
  by (auto simp: in_set_enumerate_eq)

text \<open>
  Claim C4. When \<^verbatim>\<open>reconcile\<close> returns, \<^verbatim>\<open>unregistered\<close> holds, in the order of the
  statement, one record for each transaction that no match consumed, and for no other: a
  transaction is consumed when a filtered entry has its journal as key and it is the first
  transaction with that journal. Every such record has the customer name
  \<^verbatim>\<open>UNREGISTERED\<close>, the payment mode \<^verbatim>\<open>BANK TRANSFER\<close>, the bank \<^verbatim>\<open>Bank of Bhutan\<close> and a
  \<^verbatim>\<open>Bank_Amount\<close> that is the amount of its transaction.
\<close>

theorem unregistered_iff_not_consumed:
  assumes "reconcile self = Inr c"
  shows "unregistered c =
           map (\<lambda>(i, t). unregistered_entry t)
             (filter (\<lambda>(i, t). \<not> consumed (records (bank_df self)) (data_entry_df self) i)
                (enumerate 0 (records (bank_df self))))
       \<and> (\<forall>u \<in> set (unregistered c).
             \<exists>i < length (records (bank_df self)).
               \<not> consumed (records (bank_df self)) (data_entry_df self) i
               \<and> u = unregistered_entry (records (bank_df self) ! i)
               \<and> map_of u ''CustomerName'' = Some (CText ''UNREGISTERED'')
               \<and> map_of u ''PaymentMode'' = Some (CText ''BANK TRANSFER'')
               \<and> map_of u ''Bank'' = Some (CText ''Bank of Bhutan'')
               \<and> map_of u ''Bank_Amount'' = Some (CFloat (amount (records (bank_df self) ! i))))
       \<and> (\<forall>i < length (records (bank_df self)).
             \<not> consumed (records (bank_df self)) (data_entry_df self) i \<longrightarrow>
               unregistered_entry (records (bank_df self) ! i) \<in> set (unregistered c))"
proof -
  let ?bank = "records (bank_df self)"
  let ?es = "data_entry_df self"
  from reconcile_rows_inv [OF assms] obtain v where
    inv: "rows_inv ?bank ?es v"
    and u: "unregistered c =
                map (\<lambda>(i, t). unregistered_entry t)
                  (filter (\<lambda>(i, t). i \<notin> bank_matched v) (enumerate 0 ?bank))"
    by blast
  from inv have bm: "bank_matched v = {i. consumed ?bank ?es i}"
    unfolding rows_inv_def by blast
  have eq: "unregistered c =
           map (\<lambda>(i, t). unregistered_entry t)
             (filter (\<lambda>(i, t). \<not> consumed ?bank ?es i) (enumerate 0 ?bank))"
    unfolding u bm by simp
  have fwd: "\<exists>i < length ?bank. \<not> consumed ?bank ?es i
               \<and> u = unregistered_entry (?bank ! i)
               \<and> map_of u ''CustomerName'' = Some (CText ''UNREGISTERED'')
               \<and> map_of u ''PaymentMode'' = Some (CText ''BANK TRANSFER'')
               \<and> map_of u ''Bank'' = Some (CText ''Bank of Bhutan'')
               \<and> map_of u ''Bank_Amount'' = Some (CFloat (amount (?bank ! i)))"
    if "u \<in> set (unregistered c)" for u
  proof -
    from that obtain i t where it: "(i, t) \<in> set (enumerate 0 ?bank)"
      and nc: "\<not> consumed ?bank ?es i" and ut: "u = unregistered_entry t"
      unfolding eq by auto
    from enumerate_member [OF it] have "i < length ?bank" "t = ?bank ! i" by simp_all
    with nc ut show ?thesis by (auto simp: unregistered_entry_fields)
  qed
  have bwd: "unregistered_entry (?bank ! i) \<in> set (unregistered c)"
    if "i < length ?bank" "\<not> consumed ?bank ?es i" for i
  proof -
    from that(1) have "(i, ?bank ! i) \<in> set (enumerate 0 ?bank)"
      by (simp add: in_set_enumerate_eq)
    with that(2) show ?thesis unfolding eq by force
  qed
  from eq fwd bwd show ?thesis by blast
qed

theorem unregistered_iff_not_consumed_witness:
  "reconcile example_state = Inr example_report
   \<and> consumed (records (bank_df example_state)) (data_entry_df example_state) 0
   \<and> consumed (records (bank_df example_state)) (data_entry_df example_state) 1
   \<and> \<not> consumed (records (bank_df example_state)) (data_entry_df example_state) 2
   \<and> unregistered example_report = [unregistered_entry (example_transactions ! 2)]"
proof -
  have bank: "records (bank_df example_state) = example_transactions"
    and es: "data_entry_df example_state = example_entries"
    by (simp_all add: example_state_def DataFrame_def)
  have c0: "consumed example_transactions example_entries 0"
    and c1: "consumed example_transactions example_entries 1"
    and c2: "\<not> consumed example_transactions example_entries 2"
    by (simp_all add: consumed_def example_transactions_def example_entries_def
        less_Suc_eq numeral_2_eq_2)
  have "enumerate 0 example_transactions
      = [(0, example_transactions ! 0), (1, example_transactions ! 1),
         (2, example_transactions ! 2)]"
    by (simp add: example_transactions_def)
  with unregistered_iff_not_consumed [OF example_reconcile] c0 c1 c2
  have "unregistered example_report = [unregistered_entry (example_transactions ! 2)]"
    unfolding bank es by simp
  with example_reconcile c0 c1 c2 show ?thesis unfolding bank es by simp
qed

section \<open>The entry filter\<close>

lemma init_data_entry_df:
  assumes "BankReconciliation_init ledger pdf = Inr self"
  shows "data_entry_df self = map with_ChequeDDNo_str (filter (\<lambda>r. ChequeDDNo r \<noteq> None) ledger)"
    and "original_df self = ledger"
  using assms
  by (auto simp: BankReconciliation_init_def Let_def notna_def split: sum.splits)

text \<open>
  Claim C5, as amended. The entries that take part in matching are the ledger rows whose
  reference key is not null, each with its key trimmed: they are the rows that
  \<^verbatim>\<open>total_entries\<close> counts and the rows that the report's non-adjustment rows stand for. No
  row of any category has a null key, and the original ledger is kept as it was. A key
  that is empty or blank text is not null: such a row is kept.
\<close>

theorem entry_filter_keeps_present_keys:
  assumes "BankReconciliation_init ledger pdf = Inr self" and "reconcile self = Inr c"
  shows "data_entry_df self
           = map with_ChequeDDNo_str (filter (\<lambda>r. ChequeDDNo r \<noteq> None) ledger)
       \<and> original_df self = ledger
       \<and> length (data_entry_df self) = length (filter (\<lambda>r. ChequeDDNo r \<noteq> None) ledger)
       \<and> map entry_of (filter primary (all_entries c)) = data_entry_df self
       \<and> (\<forall>d \<in> set (all_entries c) \<union> set (matched c) \<union> set (adjusted c) \<union> set (unmatched c).
             ChequeDDNo d \<noteq> None)"
proof -
  note df = init_data_entry_df [OF assms(1)]
  from reconcile_report_inv [OF assms(2)] obtain v where
    inv: "report_inv (data_entry_df self) v"
    and c: "all_entries c = all_entries_v v" "matched c = matched_entries v"
      "adjusted c = adjusted_entries v" "unmatched c = unmatched_entries v"
    by blast
  from inv c have e: "map entry_of (filter primary (all_entries c)) = data_entry_df self"
    and sub: "set (matched c) \<subseteq> set (all_entries c)" "set (adjusted c) \<subseteq> set (all_entries c)"
      "set (unmatched c) \<subseteq> set (all_entries c)"
    by (auto simp: report_inv_def)
  from reconcile_rows_inv [OF assms(2)] obtain v' where
    inv': "rows_inv (records (bank_df self)) (data_entry_df self) v'"
    and all': "all_entries c = all_entries_v v'"
    by blast
  have key: "ChequeDDNo d \<noteq> None" if "d \<in> set (all_entries c)" for d
  proof -
    from inv' that all' obtain e where "e \<in> set (data_entry_df self)"
      "ChequeDDNo d = ChequeDDNo e"
      unfolding rows_inv_def by auto
    then show ?thesis unfolding df(1) by (auto simp: with_ChequeDDNo_str_def)
  qed
  from df e sub key show ?thesis by auto
qed

text \<open>
  In the worked example the second ledger row has the key \<^verbatim>\<open>"  "\<close>, which is empty once
  trimmed: it is counted among the three entries and reported as \<^verbatim>\<open>Not Found in Bank\<close>.
\<close>

theorem whitespace_key_counterexample:
  "BankReconciliation_init example_ledger example_statement = Inr example_state
   \<and> reconcile example_state = Inr example_report
   \<and> ChequeDDNo (example_ledger ! 1) = Some ''  ''
   \<and> strip ''  '' = ''''
   \<and> length (data_entry_df example_state) = 3
   \<and> map ChequeDDNo (unmatched example_report) = [Some ''  '']
   \<and> map Status (unmatched example_report) = [''Not Found in Bank'']
   \<and> map ChequeDDNo (all_entries example_report)
       = [Some ''JRN1'', Some ''  '', Some ''JRN3'', Some ''JRN3'']"
  using example_init example_reconcile
  by (simp add: example_ledger_def example_state_def example_entries_def example_report_def
      example_unmatched_row_def example_matched_row_def example_mismatch_row_def
      example_adjustment_row_def text_defs)

theorem entry_filter_keeps_present_keys_witness:
  "BankReconciliation_init example_ledger example_statement = Inr example_state
   \<and> reconcile example_state = Inr example_report
   \<and> length (filter (\<lambda>r. ChequeDDNo r \<noteq> None) example_ledger) = 3
   \<and> length (data_entry_df example_state) = 3
   \<and> map entry_of (filter primary (all_entries example_report)) = data_entry_df example_state"
proof -
  have "length (filter (\<lambda>r. ChequeDDNo r \<noteq> None) example_ledger) = 3"
    by (simp add: example_ledger_def)
  with entry_filter_keeps_present_keys [OF example_init example_reconcile]
    example_init example_reconcile
  show ?thesis by simp
qed

section \<open>A statement without transactions\<close>

lemma DataFrame_empty: "columns (DataFrame []) = []" "records (DataFrame []) = []"
  by (simp_all add: DataFrame_def)

text \<open>
  Claim C10. When the statement can be read but no row survives the extraction,
  \<^verbatim>\<open>parse_bank_pdf\<close> returns the data frame of the empty list, which has no columns; the
  constructor then raises \<^verbatim>\<open>KeyError\<close> on reading its \<^verbatim>\<open>journal_number\<close> column, and the
  endpoint answers with status 500 without the report generator being reached.
\<close>

theorem empty_extraction_raises:
  assumes "parse_bank_pdf pdf = Inr df" and "records df = []"
  shows "pdf \<noteq> None \<and> df = DataFrame [] \<and> columns df = []
       \<and> BankReconciliation_init ledger pdf = Inl (KeyError ''journal_number'')
       \<and> reconcile_files generate_report ledger pdf = Inl (HTTPException 500)"
proof -
  from assms(1) obtain pages where pdf: "pdf = Some pages"
    and df: "df = DataFrame (concat (map (\<lambda>page. concat (map parse_table page)) pages))"
    by (auto simp: parse_bank_pdf_def split: option.splits)
  from assms(2) df have "concat (map (\<lambda>page. concat (map parse_table page)) pages) = []"
    by (simp add: DataFrame_def)
  with df have e: "df = DataFrame []" by simp
  then have "journal_number_column df = Inl (KeyError ''journal_number'')"
    by (simp add: journal_number_column_def DataFrame_def)
  with assms(1) have i: "BankReconciliation_init ledger pdf = Inl (KeyError ''journal_number'')"
    by (simp add: BankReconciliation_init_def Let_def)
  then have "reconcile_files generate_report ledger pdf = Inl (HTTPException 500)"
    by (simp add: reconcile_files_def)
  with pdf e i show ?thesis by (simp add: DataFrame_def)
qed

lemma headerless_parse: "parse_bank_pdf headerless_statement = Inr (DataFrame [])"
  by (simp add: parse_bank_pdf_def headerless_statement_def parse_table_def is_header_row_def
      truthy_def py_str_def text_defs)

theorem empty_extraction_raises_witness:
  "parse_bank_pdf headerless_statement = Inr (DataFrame [])
   \<and> records (DataFrame []) = []
   \<and> BankReconciliation_init example_ledger headerless_statement
       = Inl (KeyError ''journal_number'')
   \<and> reconcile_files reconcile example_ledger headerless_statement = Inl (HTTPException 500)"
  using empty_extraction_raises [OF headerless_parse DataFrame_empty(2),
      of example_ledger reconcile] headerless_parse
  by (simp add: DataFrame_empty)

section \<open>The rows of a statement table\<close>




















section \<open>The accuracy percentage\<close>

lemma round_half_even_nonneg: "0 \<le> y \<Longrightarrow> 0 \<le> round_half_even y"
  by (simp add: round_half_even_def Let_def)

lemma round_half_even_le_int:
  assumes "y \<le> rat_of_int N"
  shows "round_half_even y \<le> N"
proof -
  have f: "\<lfloor>y\<rfloor> \<le> N" using assms by (simp add: floor_le_iff)
  show ?thesis
  proof (cases "\<lfloor>y\<rfloor> = N")
    case True
    with assms have "y - rat_of_int \<lfloor>y\<rfloor> \<le> 0" by simp
    then show ?thesis using True by (simp add: round_half_even_def Let_def)
  next
    case False
    with f have "\<lfloor>y\<rfloor> + 1 \<le> N" by simp
    then show ?thesis by (simp add: round_half_even_def Let_def)
  qed
qed

lemma round_double_unit:
  assumes "0 \<le> x" and "x \<le> 1"
  shows "\<exists>q. round_double x = Fin q \<and> 0 \<le> q \<and> q \<le> 1"
proof (cases "x = 0")
  case True
  then show ?thesis by (simp add: round_double_def)
next
  case False
  with assms have pos: "0 < x" by simp
  define e where "e = max (floor_log2 \<bar>x\<bar>) (- 1022)"
  define N where "N = (2::int) ^ nat (52 - e)"
  have "pow2 (floor_log2 x) \<le> pow2 0"
    using floor_log2_le [OF pos] assms(2) by (simp add: pow2_def)
  then have "floor_log2 x \<le> 0" by (rule pow2_le_imp_le)
  with pos have e: "e \<le> 0" by (simp add: e_def)
  have qpos: "0 < pow2 (e - 52)" by (rule pow2_pos)
  have inv: "pow2 (e - 52) * rat_of_int N = 1"
  proof -
    have "rat_of_int N = pow2 (52 - e)" using e by (simp add: N_def pow2_def)
    then have "pow2 (e - 52) * rat_of_int N = pow2 ((e - 52) + (52 - e))"
      by (simp only: pow2_add)
    then show ?thesis by (simp add: pow2_def)
  qed
  define n where "n = round_half_even (x / pow2 (e - 52))"
  have "x / pow2 (e - 52) \<le> rat_of_int N"
  proof -
    have "x / pow2 (e - 52) \<le> 1 / pow2 (e - 52)"
      using assms(2) qpos by (simp add: divide_right_mono)
    also have "\<dots> = rat_of_int N" using inv qpos by (simp add: field_simps)
    finally show ?thesis .
  qed
  then have n_le: "n \<le> N" unfolding n_def by (rule round_half_even_le_int)
  have n_ge: "0 \<le> n" unfolding n_def using pos qpos by (intro round_half_even_nonneg) simp
  define r where "r = rat_of_int n * pow2 (e - 52)"
  have r0: "0 \<le> r" unfolding r_def using n_ge qpos by simp
  have "r \<le> rat_of_int N * pow2 (e - 52)"
    unfolding r_def using n_le qpos by (intro mult_right_mono) simp_all
  with inv have r1: "r \<le> 1" by (simp add: mult.commute)
  have "\<bar>r\<bar> < pow2 1024" using r0 r1 by (simp add: pow2_def)
  then have "round_double x = Fin r"
    using False by (simp add: round_double_def Let_def e_def [symmetric] n_def r_def)
  with r0 r1 show ?thesis by blast
qed

lemma int_truediv_le:
  assumes "0 < t" and "m \<le> t"
  shows "\<exists>q. int_truediv (int m) (int t) = Inr (Fin q) \<and> 0 \<le> q \<and> q \<le> 1"
proof -
  have "0 \<le> rat_of_int (int m) / rat_of_int (int t)" by simp
  moreover have "rat_of_int (int m) / rat_of_int (int t) \<le> 1"
    using assms by simp
  ultimately obtain q where "round_double (rat_of_int (int m) / rat_of_int (int t)) = Fin q"
    "0 \<le> q" "q \<le> 1"
    using round_double_unit by blast
  with assms(1) show ?thesis by (simp add: int_truediv_def)
qed

lemma filter_length_mono:
  assumes "\<forall>x \<in> set xs. P x \<longrightarrow> Q x"
  shows "length (filter P xs) \<le> length (filter Q xs)"
  using assms by (induction xs) auto

lemma matched_le_total:
  assumes "reconcile self = Inr c"
  shows "length (matched c) \<le> length (data_entry_df self)"
proof -
  from reconcile_report_inv [OF assms] obtain v where inv: "report_inv (data_entry_df self) v"
    and c: "all_entries c = all_entries_v v" "matched c = matched_entries v"
    by blast
  from inv c have m: "matched c = filter (\<lambda>d. Status d = ''Matched'') (all_entries c)"
    and e: "map entry_of (filter primary (all_entries c)) = data_entry_df self"
    by (simp_all add: report_inv_def)
  have "length (matched c) \<le> length (filter primary (all_entries c))"
    unfolding m by (rule filter_length_mono) (simp add: primary_def)
  also have "\<dots> = length (data_entry_df self)" using e by (metis length_map)
  finally show ?thesis .
qed

text \<open>
  Claim C9. The accuracy cell is \<^verbatim>\<open>0%\<close> when \<^verbatim>\<open>total_entries\<close> is zero; otherwise it is
  the float \<^verbatim>\<open>matched / total_entries * 100\<close> written with one decimal and a percent sign.
  The division is never by zero, so no \<^verbatim>\<open>ZeroDivisionError\<close> can occur; and on the counts
  of a run of \<^verbatim>\<open>reconcile\<close>, where \<^verbatim>\<open>matched\<close> is at most \<^verbatim>\<open>total_entries\<close>, the cell is
  computed without any error.
\<close>

theorem accuracy_guarded:
  "summary_accuracy st \<noteq> Inl ZeroDivisionError
   \<and> (total_entries st = 0 \<longrightarrow> summary_accuracy st = Inr ''0%'')
   \<and> (0 < total_entries st \<longrightarrow>
        summary_accuracy st =
          map_sum id (\<lambda>q. format_1f (fmul q (Fin 100)) @ ''%'')
            (int_truediv (int (stats_matched st)) (int (total_entries st))))
   \<and> (0 < total_entries st \<and> stats_matched st \<le> total_entries st \<longrightarrow>
        (\<exists>q. round_double (rat_of_int (int (stats_matched st))
                             / rat_of_int (int (total_entries st))) = Fin q
            \<and> 0 \<le> q \<and> q \<le> 1
            \<and> summary_accuracy st = Inr (format_1f (fmul (Fin q) (Fin 100)) @ ''%'')))
   \<and> (reconcile self = Inr c \<longrightarrow> (\<exists>s. summary_accuracy (count_stats self c) = Inr s))"
proof (intro conjI impI)
  show "summary_accuracy st \<noteq> Inl ZeroDivisionError"
    by (auto simp: summary_accuracy_def int_truediv_def split: sum.splits pyfloat.splits)
  show "summary_accuracy st = Inr ''0%''" if "total_entries st = 0"
    using that by (simp add: summary_accuracy_def)
  show "summary_accuracy st =
          map_sum id (\<lambda>q. format_1f (fmul q (Fin 100)) @ ''%'')
            (int_truediv (int (stats_matched st)) (int (total_entries st)))"
    if "0 < total_entries st"
    using that by (simp add: summary_accuracy_def split: sum.split)
  have le: "\<exists>q. round_double (rat_of_int (int (stats_matched st))
                             / rat_of_int (int (total_entries st))) = Fin q
            \<and> 0 \<le> q \<and> q \<le> 1
            \<and> summary_accuracy st = Inr (format_1f (fmul (Fin q) (Fin 100)) @ ''%'')"
    if "0 < total_entries st \<and> stats_matched st \<le> total_entries st" for st
  proof -
    from that int_truediv_le [of "total_entries st" "stats_matched st"]
    obtain q where q: "int_truediv (int (stats_matched st)) (int (total_entries st)) = Inr (Fin q)"
      "0 \<le> q" "q \<le> 1" by blast
    from q(1) that have "round_double (rat_of_int (int (stats_matched st))
                             / rat_of_int (int (total_entries st))) = Fin q"
      by (auto simp: int_truediv_def split: pyfloat.splits)
    with q that show ?thesis by (simp add: summary_accuracy_def)
  qed
  then show "\<exists>q. round_double (rat_of_int (int (stats_matched st))
                             / rat_of_int (int (total_entries st))) = Fin q
            \<and> 0 \<le> q \<and> q \<le> 1
            \<and> summary_accuracy st = Inr (format_1f (fmul (Fin q) (Fin 100)) @ ''%'')"
    if "0 < total_entries st \<and> stats_matched st \<le> total_entries st"
    using that by blast
  show "\<exists>s. summary_accuracy (count_stats self c) = Inr s" if r: "reconcile self = Inr c"
  proof (cases "total_entries (count_stats self c) = 0")
    case True
    then show ?thesis by (simp add: summary_accuracy_def)
  next
    case False
    moreover have "stats_matched (count_stats self c) \<le> total_entries (count_stats self c)"
      using matched_le_total [OF r] by (simp add: count_stats_def)
    ultimately show ?thesis using le [of "count_stats self c"] by auto
  qed
qed

lemma rd1_2: "round_double (1 / 2) = Fin (1 / 2)" using round_double_half [of 1] by simp
lemma rd50: "round_double 50 = Fin 50" using round_double_int [of 50] by simp

lemma format_50: "format_1f (Fin 50) = ''50.0''"
  by (simp add: format_1f_def round_half_even_def Let_def str_nat.simps digit_char_def)

lemma half_accuracy: "summary_accuracy half_stats = Inr ''50.0%''"
  by (simp add: summary_accuracy_def half_stats_def int_truediv_def rd1_2 rd50 format_50)

theorem accuracy_guarded_witness:
  "total_entries empty_stats = 0
   \<and> summary_accuracy empty_stats = Inr ''0%''
   \<and> 0 < total_entries half_stats \<and> stats_matched half_stats \<le> total_entries half_stats
   \<and> summary_accuracy half_stats = Inr ''50.0%''
   \<and> reconcile example_state = Inr example_report
   \<and> (\<exists>s. summary_accuracy (count_stats example_state example_report) = Inr s)"
proof -
  have e: "total_entries empty_stats = 0" by (simp add: empty_stats_def)
  with accuracy_guarded [of empty_stats] have "summary_accuracy empty_stats = Inr ''0%''"
    by blast
  moreover from accuracy_guarded [of _ example_state example_report] example_reconcile
  have "\<exists>s. summary_accuracy (count_stats example_state example_report) = Inr s"
    by blast
  moreover have "0 < total_entries half_stats \<and> stats_matched half_stats \<le> total_entries half_stats"
    by (simp add: half_stats_def)
  ultimately show ?thesis using e half_accuracy example_reconcile by blast
qed

end
